theory Spec2Isabelle
  imports Complex_Main "HOL-Library.Word"
begin

section \<open>Data model of the raster editor (src/src/App.tsx, ImageEditor)\<close>

text \<open>
  JavaScript numbers that carry coordinates, scales and pixel distances are
  modelled as \<^typ>\<open>real\<close>; NaN and the infinities are outside the model.
  A byte of an \<^verbatim>\<open>ImageData.data\<close> array (a Uint8ClampedArray) is an 8-bit word.
  A read of a typed array outside its range yields \<^verbatim>\<open>undefined\<close> in JavaScript:
  such a read is \<^term>\<open>None\<close> here.
\<close>

type_synonym byte = "8 word"

record imageData =
  width :: nat
  height :: nat
  data :: "byte list"

record pos =
  pos_x :: real
  pos_y :: real

text \<open>The result of \<^verbatim>\<open>canvas.getBoundingClientRect()\<close>.\<close>

record domRect =
  rect_left :: real
  rect_top :: real
  rect_right :: real
  rect_width :: real
  rect_height :: real

datatype tool = Wand | Eraser | RemoveText | Hand | Pipette | TextBox | Brush

text \<open>
  A value assigned to \<^verbatim>\<open>ctx.fillStyle\<close> or \<^verbatim>\<open>ctx.strokeStyle\<close>: a literal
  CSS text, the hexadecimal colour the pipette builds from one number (NaN is
  \<^term>\<open>None\<close>), or the
  \<^verbatim>\<open>rgb(r, g, b)\<close> template of the background inference, whose components
  are \<^verbatim>\<open>undefined\<close> when the sampled read was out of range.
\<close>

datatype style = CssText string | HexNumber "int option" | RgbTemplate "int option" "int option" "int option"

record textBox =
  box_x :: real
  box_y :: real
  box_w :: real
  box_h :: real

datatype error = TypeError | IndexSizeError

text \<open>
  The state of one ImageEditor component: the React state variables, the canvas
  behind \<^verbatim>\<open>canvasRef\<close> (\<^term>\<open>None\<close> while the ref is null) and the part of its 2d
  context the handlers use.  State setters are applied in program order.
\<close>

record editor =
  canvas :: "imageData option"
  ctxPath :: "pos list"
  ctxStrokeStyle :: style
  ctxLineWidth :: real
  ctxLineCap :: string
  ctxLineJoin :: string
  ctxFillStyle :: style
  tool :: tool
  prevTool :: tool
  isDrawing :: bool
  isPanning :: bool
  panOffset :: pos
  lastPanPos :: pos
  lastTouchDistance :: "real option"
  startPos :: pos
  currentPos :: pos
  brushSize :: real
  manualBgColor :: style
  useManualColor :: bool
  isEnteringText :: bool
  pendingTextBox :: "textBox option"
  imageLoaded :: bool
  imageSize :: "nat \<times> nat"
  history :: "imageData list"
  historyIndex :: int
  scale :: real
  isRotated :: bool

section \<open>History: saveState, undo, redo, image load\<close>

text \<open>\<^verbatim>\<open>xs.slice(0, e)\<close> for an integer \<open>e\<close>: a negative end counts from the end.\<close>

definition slice0 :: "'a list \<Rightarrow> int \<Rightarrow> 'a list" where
  "slice0 xs e =
     (let n = int (length xs);
          k = (if e < 0 then max (n + e) 0 else min e n)
      in take (nat k) xs)"

text \<open>
  \<^verbatim>\<open>ctx.getImageData(0, 0, canvas.width, canvas.height)\<close> copies the whole
  buffer; the snapshot is appended after the entries up to the current index.
\<close>

definition saveState :: "editor \<Rightarrow> editor" where
  "saveState st =
     (case canvas st of
        None \<Rightarrow> st
      | Some imgData \<Rightarrow>
          (let newHistory = slice0 (history st) (historyIndex st + 1) @ [imgData]
           in st\<lparr>history := newHistory, historyIndex := int (length newHistory) - 1\<rparr>))"

text \<open>
  \<^verbatim>\<open>putImageData(imageData)\<close> returns early without a canvas; otherwise
  \<^verbatim>\<open>ctx.putImageData(imageData, 0, 0)\<close> overwrites the buffer with the snapshot,
  and raises a TypeError when handed \<^verbatim>\<open>undefined\<close> (an index outside the
  history array).
\<close>

definition putImageData :: "imageData option \<Rightarrow> editor \<Rightarrow> error + editor" where
  "putImageData snapshot st =
     (case canvas st of
        None \<Rightarrow> Inr st
      | Some _ \<Rightarrow>
          (case snapshot of
             None \<Rightarrow> Inl TypeError
           | Some imgData \<Rightarrow> Inr (st\<lparr>canvas := Some imgData\<rparr>)))"

text \<open>\<^verbatim>\<open>history[i]\<close>: \<^verbatim>\<open>undefined\<close> outside the array.\<close>

definition historyAt :: "editor \<Rightarrow> int \<Rightarrow> imageData option" where
  "historyAt st i =
     (if 0 \<le> i \<and> i < int (length (history st)) then Some (history st ! nat i) else None)"

definition undo :: "editor \<Rightarrow> error + editor" where
  "undo st =
     (if historyIndex st > 0 then
        (let newIndex = historyIndex st - 1
         in putImageData (historyAt st newIndex) (st\<lparr>historyIndex := newIndex\<rparr>))
      else Inr st)"

definition redo :: "editor \<Rightarrow> error + editor" where
  "redo st =
     (if historyIndex st < int (length (history st)) - 1 then
        (let newIndex = historyIndex st + 1
         in putImageData (historyAt st newIndex) (st\<lparr>historyIndex := newIndex\<rparr>))
      else Inr st)"

text \<open>
  The image-load effect: nothing happens without a canvas; otherwise
  \<^verbatim>\<open>img.onload\<close> sizes the canvas to the image, draws it, records the size and
  takes the baseline snapshot.  The decoded image is the argument.
\<close>

definition loadImage :: "imageData \<Rightarrow> editor \<Rightarrow> editor" where
  "loadImage img st =
     (case canvas st of
        None \<Rightarrow> st
      | Some _ \<Rightarrow>
          saveState (st\<lparr>canvas := Some img,
                        imageSize := (width img, height img),
                        imageLoaded := True\<rparr>))"

text \<open>
  A committed tool operation, as far as buffer and history are concerned: the
  tool has repainted the buffer (to \<open>painted\<close>) and then calls \<^verbatim>\<open>saveState()\<close>.
\<close>

definition commitPainted :: "imageData \<Rightarrow> editor \<Rightarrow> editor" where
  "commitPainted painted st = saveState (st\<lparr>canvas := Some painted\<rparr>)"

text \<open>\<open>n\<close> clicks on the undo button, stopping at the first error.\<close>

fun undoTimes :: "nat \<Rightarrow> editor \<Rightarrow> error + editor" where
  "undoTimes 0 st = Inr st"
| "undoTimes (Suc n) st = (case undo st of Inl e \<Rightarrow> Inl e | Inr st' \<Rightarrow> undoTimes n st')"

text \<open>
  The initial React state (the \<^verbatim>\<open>useState\<close> defaults) and the defaults of a
  fresh 2d context, for a given content of \<^verbatim>\<open>canvasRef\<close>.
\<close>

definition initialEditor :: "imageData option \<Rightarrow> editor" where
  "initialEditor c =
     \<lparr>canvas = c, ctxPath = [], ctxStrokeStyle = CssText ''#000000'', ctxLineWidth = 1,
      ctxLineCap = ''butt'', ctxLineJoin = ''miter'', ctxFillStyle = CssText ''#000000'',
      tool = RemoveText, prevTool = RemoveText, isDrawing = False, isPanning = False,
      panOffset = \<lparr>pos_x = 0, pos_y = 0\<rparr>, lastPanPos = \<lparr>pos_x = 0, pos_y = 0\<rparr>,
      lastTouchDistance = None,
      startPos = \<lparr>pos_x = 0, pos_y = 0\<rparr>, currentPos = \<lparr>pos_x = 0, pos_y = 0\<rparr>,
      brushSize = 20, manualBgColor = CssText ''#ffffff'', useManualColor = False,
      isEnteringText = False, pendingTextBox = None, imageLoaded = False, imageSize = (0, 0),
      history = [], historyIndex = - 1, scale = 1, isRotated = False\<rparr>"

text \<open>Small concrete buffers used in examples.\<close>

definition px1 :: "byte list \<Rightarrow> imageData" where
  "px1 bs = \<lparr>width = 1, height = 1, data = bs\<rparr>"

section \<open>Colour wand: removeColorAt\<close>

text \<open>
  \<^verbatim>\<open>d[i]\<close> on a typed array: the byte as a number, \<^verbatim>\<open>undefined\<close> outside the array.
\<close>

definition byteAt :: "byte list \<Rightarrow> nat \<Rightarrow> int option" where
  "byteAt d i = (if i < length d then Some (uint (d ! i)) else None)"

text \<open>
  \<^verbatim>\<open>v > n\<close> and \<^verbatim>\<open>v < n\<close> for a possibly undefined \<open>v\<close>: a comparison with
  \<^verbatim>\<open>undefined\<close> is false.
\<close>

definition jsGreater :: "int option \<Rightarrow> int \<Rightarrow> bool" where
  "jsGreater v n = (case v of None \<Rightarrow> False | Some a \<Rightarrow> a > n)"

definition jsLess :: "int option \<Rightarrow> int \<Rightarrow> bool" where
  "jsLess v n = (case v of None \<Rightarrow> False | Some a \<Rightarrow> a < n)"

text \<open>
  Three colour channels read from an array; each may be \<^verbatim>\<open>undefined\<close>.
\<close>

type_synonym rgb = "int option \<times> int option \<times> int option"

definition rgbAt :: "byte list \<Rightarrow> nat \<Rightarrow> rgb" where
  "rgbAt d i = (byteAt d i, byteAt d (i + 1), byteAt d (i + 2))"

text \<open>
  The two guards of removeColorAt on the seed colour:
  \<^verbatim>\<open>targetR > 240 && targetG > 240 && targetB > 240\<close> and
  \<^verbatim>\<open>targetR < 50 && targetG < 50 && targetB < 50\<close>.
\<close>

definition nearWhite :: "rgb \<Rightarrow> bool" where
  "nearWhite t = (case t of (r, g, b) \<Rightarrow> jsGreater r 240 \<and> jsGreater g 240 \<and> jsGreater b 240)"

definition nearBlack :: "rgb \<Rightarrow> bool" where
  "nearBlack t = (case t of (r, g, b) \<Rightarrow> jsLess r 50 \<and> jsLess g 50 \<and> jsLess b 50)"

text \<open>
  \<^verbatim>\<open>matchColor\<close>: the Euclidean distance to the target colour is below the
  tolerance.  With an undefined operand the distance is NaN and the comparison
  is false.
\<close>

definition tolerance :: real where
  "tolerance = 40"

fun matchColor :: "rgb \<Rightarrow> rgb \<Rightarrow> bool" where
  "matchColor (Some targetR, Some targetG, Some targetB) (Some r, Some g, Some b) =
     (sqrt (real_of_int ((r - targetR)\<^sup>2 + (g - targetG)\<^sup>2 + (b - targetB)\<^sup>2)) < tolerance)"
| "matchColor _ _ = False"

text \<open>
  The variables the traversal loop of removeColorAt mutates.  \<open>fs_visited\<close> is
  the Uint8Array used as a bitmap (\<^term>\<open>True\<close> for 1).  \<open>fs_stack\<close> holds the
  JavaScript array reversed, so that its head is the element \<^verbatim>\<open>pop()\<close> returns:
  after \<^verbatim>\<open>stack.push(a, b)\<close> the list starts with \<open>b\<close>, then \<open>a\<close>.
\<close>

record floodState =
  fs_data :: "byte list"
  fs_visited :: "bool list"
  fs_stack :: "nat list"

text \<open>
  \<^verbatim>\<open>visited[i]\<close> as a condition: \<^verbatim>\<open>undefined\<close> (outside the array) is falsy.
\<close>

definition visitedAt :: "bool list \<Rightarrow> nat \<Rightarrow> bool" where
  "visitedAt v i = (i < length v \<and> v ! i)"

text \<open>
  \<^verbatim>\<open>if (c) stack.push(a, b)\<close>.
\<close>

definition pushIf :: "bool \<Rightarrow> nat \<Rightarrow> nat \<Rightarrow> nat list \<Rightarrow> nat list" where
  "pushIf c a b stack = (if c then b # a # stack else stack)"

text \<open>
  One iteration of \<^verbatim>\<open>while (stack.length > 0)\<close>: pop \<open>y\<close>, pop \<open>x\<close>, skip a
  visited pixel, otherwise mark it and, when its colour matches, paint it opaque
  white and push the unvisited neighbours (left, right, up, down).  Writes outside
  a typed array are ignored, as \<^const>\<open>list_update\<close> ignores them.  Popping \<open>x\<close> from
  an emptied array gives \<^verbatim>\<open>undefined\<close>: the index is NaN, nothing is marked and
  nothing matches.
\<close>

definition floodStep :: "nat \<Rightarrow> nat \<Rightarrow> rgb \<Rightarrow> floodState \<Rightarrow> floodState" where
  "floodStep w h target s =
     (case fs_stack s of
        [] \<Rightarrow> s
      | [y] \<Rightarrow> s\<lparr>fs_stack := []\<rparr>
      | y # x # rest \<Rightarrow>
          (let idx = y * w + x in
           if visitedAt (fs_visited s) idx then s\<lparr>fs_stack := rest\<rparr>
           else
             (let visited = (fs_visited s)[idx := True];
                  p = idx * 4
              in if matchColor target (rgbAt (fs_data s) p) then
                   (let d = (fs_data s)[p := 255, p + 1 := 255, p + 2 := 255, p + 3 := 255];
                        s1 = pushIf (x > 0 \<and> \<not> visitedAt visited (idx - 1)) (x - 1) y rest;
                        s2 = pushIf (x < w - 1 \<and> \<not> visitedAt visited (idx + 1)) (x + 1) y s1;
                        s3 = pushIf (y > 0 \<and> \<not> visitedAt visited (idx - w)) x (y - 1) s2;
                        s4 = pushIf (y < h - 1 \<and> \<not> visitedAt visited (idx + w)) x (y + 1) s3
                    in \<lparr>fs_data = d, fs_visited = visited, fs_stack = s4\<rparr>)
                 else s\<lparr>fs_visited := visited, fs_stack := rest\<rparr>)))"

text \<open>
  The loop itself; \<^term>\<open>None\<close> stands for a loop that never ends.
\<close>

partial_function (option) floodLoop :: "nat \<Rightarrow> nat \<Rightarrow> rgb \<Rightarrow> floodState \<Rightarrow> floodState option" where
  "floodLoop w h target s =
     (if fs_stack s = [] then Some s else floodLoop w h target (floodStep w h target s))"

text \<open>
  \<^verbatim>\<open>removeColorAt(startX, startY)\<close>: no canvas, a seed outside the buffer, a
  near-white or a near-black seed return at once; otherwise the traversal runs
  from the seed, the buffer is written back and \<^verbatim>\<open>saveState()\<close> is called.
\<close>

definition removeColorAt :: "real \<Rightarrow> real \<Rightarrow> editor \<Rightarrow> editor option" where
  "removeColorAt startX startY st =
     (case canvas st of
        None \<Rightarrow> Some st
      | Some imgData \<Rightarrow>
          (let w = width imgData; h = height imgData; d = data imgData;
               sx = \<lfloor>startX\<rfloor>; sy = \<lfloor>startY\<rfloor>
           in if sx < 0 \<or> sx \<ge> int w \<or> sy < 0 \<or> sy \<ge> int h then Some st
              else
                (let startIndex = (nat sy * w + nat sx) * 4;
                     target = rgbAt d startIndex
                 in if nearWhite target then Some st
                    else if nearBlack target then Some st
                    else
                      (case floodLoop w h target
                              \<lparr>fs_data = d, fs_visited = replicate (w * h) False,
                               fs_stack = [nat sy, nat sx]\<rparr> of
                         None \<Rightarrow> None
                       | Some s \<Rightarrow>
                           Some (saveState (st\<lparr>canvas := Some (imgData\<lparr>data := fs_data s\<rparr>)\<rparr>))))))"

section \<open>Specification notions for the colour wand\<close>

text \<open>
  A bound on the remaining iterations of the traversal: every unvisited pixel
  can still cause four pushes, and every pair on the stack one pop.
\<close>

definition unvisited :: "bool list \<Rightarrow> nat" where
  "unvisited v = length (filter Not v)"

definition floodPotential :: "floodState \<Rightarrow> nat" where
  "floodPotential s = 4 * unvisited (fs_visited s) + (length (fs_stack s) + 1) div 2"

text \<open>
  The four bytes of the pixel that starts at array position \<open>p\<close>, and opaque white.
\<close>

definition rgbaAt :: "byte list \<Rightarrow> nat \<Rightarrow> byte \<times> byte \<times> byte \<times> byte" where
  "rgbaAt d p = (d ! p, d ! (p + 1), d ! (p + 2), d ! (p + 3))"

definition opaqueWhite :: "byte \<times> byte \<times> byte \<times> byte" where
  "opaqueWhite = (255, 255, 255, 255)"

text \<open>
  The region the colour wand is meant to fill: the pixels reachable from the
  seed by steps to a 4-neighbour inside the buffer whose colour matches the
  target.
\<close>

definition matchesAt :: "nat \<Rightarrow> byte list \<Rightarrow> rgb \<Rightarrow> nat \<Rightarrow> nat \<Rightarrow> bool" where
  "matchesAt w d t x y = matchColor t (rgbAt d ((y * w + x) * 4))"

definition adjacent4 :: "nat \<Rightarrow> nat \<Rightarrow> nat \<times> nat \<Rightarrow> nat \<times> nat \<Rightarrow> bool" where
  "adjacent4 w h p q =
     (case (p, q) of ((x, y), (x', y')) \<Rightarrow>
        x < w \<and> y < h \<and> x' < w \<and> y' < h \<and>
        ((y' = y \<and> (x' + 1 = x \<or> x' = x + 1)) \<or> (x' = x \<and> (y' + 1 = y \<or> y' = y + 1))))"

inductive_set region :: "nat \<Rightarrow> nat \<Rightarrow> byte list \<Rightarrow> rgb \<Rightarrow> nat \<times> nat \<Rightarrow> (nat \<times> nat) set"
  for w :: nat and h :: nat and d :: "byte list" and t :: rgb and seed :: "nat \<times> nat" where
    seed: "seed \<in> region w h d t seed"
  | step: "p \<in> region w h d t seed \<Longrightarrow> adjacent4 w h p (x', y') \<Longrightarrow> matchesAt w d t x' y'
           \<Longrightarrow> (x', y') \<in> region w h d t seed"

text \<open>
  The coordinate pairs held by the stack, and a stack made of pairs inside the
  buffer.
\<close>

fun onStack :: "nat \<Rightarrow> nat \<Rightarrow> nat list \<Rightarrow> bool" where
  "onStack x y (b # a # rest) = ((a = x \<and> b = y) \<or> onStack x y rest)"
| "onStack x y _ = False"

fun stackOK :: "nat \<Rightarrow> nat \<Rightarrow> nat list \<Rightarrow> bool" where
  "stackOK w h (b # a # rest) = (a < w \<and> b < h \<and> stackOK w h rest)"
| "stackOK w h [] = True"
| "stackOK w h [b] = False"

text \<open>
  The invariant of the traversal, for the original buffer \<open>d0\<close> and the seed
  \<open>(sx, sy)\<close>: pairs on the stack and visited pixels that match lie in the region;
  visited matching pixels are white and all others keep their original bytes; the
  seed and every neighbour of a visited matching pixel is visited or on the stack.
\<close>

definition floodInv :: "nat \<Rightarrow> nat \<Rightarrow> byte list \<Rightarrow> rgb \<Rightarrow> nat \<Rightarrow> nat \<Rightarrow> floodState \<Rightarrow> bool" where
  "floodInv w h d0 t sx sy s \<longleftrightarrow>
     (length (fs_data s) = w * h * 4 \<and> length (fs_visited s) = w * h) \<and>
     stackOK w h (fs_stack s) \<and>
     (\<forall>a b. onStack a b (fs_stack s) \<longrightarrow> matchesAt w d0 t a b \<longrightarrow>
        (a, b) \<in> region w h d0 t (sx, sy)) \<and>
     (\<forall>a b. a < w \<longrightarrow> b < h \<longrightarrow> visitedAt (fs_visited s) (b * w + a) \<longrightarrow> matchesAt w d0 t a b \<longrightarrow>
        (a, b) \<in> region w h d0 t (sx, sy) \<and> rgbaAt (fs_data s) ((b * w + a) * 4) = opaqueWhite) \<and>
     (\<forall>a b. a < w \<longrightarrow> b < h \<longrightarrow> \<not> (visitedAt (fs_visited s) (b * w + a) \<and> matchesAt w d0 t a b) \<longrightarrow>
        rgbaAt (fs_data s) ((b * w + a) * 4) = rgbaAt d0 ((b * w + a) * 4)) \<and>
     (visitedAt (fs_visited s) (sy * w + sx) \<or> onStack sx sy (fs_stack s)) \<and>
     (\<forall>a b a' b'. a < w \<longrightarrow> b < h \<longrightarrow> visitedAt (fs_visited s) (b * w + a) \<longrightarrow>
        matchesAt w d0 t a b \<longrightarrow> adjacent4 w h (a, b) (a', b') \<longrightarrow>
        visitedAt (fs_visited s) (b' * w + a') \<or> onStack a' b' (fs_stack s))"

text \<open>
  The colour of the seed pixel, a pixel of a buffer given by its coordinates, and
  the region of a click at \<open>(startX, startY)\<close>.
\<close>

definition seedColor :: "imageData \<Rightarrow> real \<Rightarrow> real \<Rightarrow> rgb" where
  "seedColor c startX startY =
     rgbAt (data c) ((nat \<lfloor>startY\<rfloor> * width c + nat \<lfloor>startX\<rfloor>) * 4)"

definition pixelAt :: "imageData \<Rightarrow> nat \<Rightarrow> nat \<Rightarrow> byte \<times> byte \<times> byte \<times> byte" where
  "pixelAt c x y = rgbaAt (data c) ((y * width c + x) * 4)"

definition fillRegion :: "imageData \<Rightarrow> real \<Rightarrow> real \<Rightarrow> (nat \<times> nat) set" where
  "fillRegion c startX startY =
     region (width c) (height c) (data c) (seedColor c startX startY)
       (nat \<lfloor>startX\<rfloor>, nat \<lfloor>startY\<rfloor>)"

text \<open>
  A 4 by 1 buffer: the seed colour, a similar colour, black, and the seed
  colour again.
\<close>

definition stripe4 :: imageData where
  "stripe4 = \<lparr>width = 4, height = 1,
     data = [120, 120, 200, 255,  130, 125, 190, 255,  0, 0, 0, 255,  120, 120, 200, 255]\<rparr>"

section \<open>Background-colour inference of the text eraser\<close>

text \<open>
  \<^verbatim>\<open>d[i]\<close> on a typed array for a JavaScript number \<open>i\<close>: only a non-negative
  integer inside the array names an element.
\<close>

definition byteAtNumber :: "byte list \<Rightarrow> real \<Rightarrow> int option" where
  "byteAtNumber d i =
     (if 0 \<le> i \<and> i = of_int \<lfloor>i\<rfloor> \<and> nat \<lfloor>i\<rfloor> < length d
      then Some (uint (d ! nat \<lfloor>i\<rfloor>)) else None)"

text \<open>
  \<^verbatim>\<open>Math.round(v / 5) * 5\<close>: \<^verbatim>\<open>Math.round\<close> rounds halves up, as \<^const>\<open>round\<close>
  does; the result is NaN (\<^term>\<open>None\<close>) for an undefined \<open>v\<close>.
\<close>

definition quantize :: "int option \<Rightarrow> int option" where
  "quantize v = map_option (\<lambda>a. round (real_of_int a / 5) * 5) v"

text \<open>
  An entry of the \<^verbatim>\<open>colors\<close> record, and the variables of the sampling loop of
  handlePointerUp.  A key of \<^verbatim>\<open>colors\<close> is the text of three quantized channels;
  it is kept as the triple.
\<close>

record bucket =
  bucket_r :: "int option"
  bucket_g :: "int option"
  bucket_b :: "int option"
  bucket_count :: nat

record sampling =
  colors :: "rgb \<rightharpoonup> bucket"
  maxCount :: nat
  bgR :: "int option"
  bgG :: "int option"
  bgB :: "int option"

text \<open>
  The body of the two nested loops at \<open>(px, py)\<close>: only the outermost pixels of
  the sampled area are read, dark pixels are skipped, the bucket of the colour is
  counted, and a count above \<^verbatim>\<open>maxCount\<close> makes the pixel's colour the background.
\<close>

definition sampleStep :: "real \<Rightarrow> real \<Rightarrow> byte list \<Rightarrow> nat \<Rightarrow> nat \<Rightarrow> sampling \<Rightarrow> sampling" where
  "sampleStep sampleW sampleH sampleData py px s =
     (if px = 0 \<or> real px = sampleW - 1 \<or> py = 0 \<or> real py = sampleH - 1 then
        (let i = (real py * sampleW + real px) * 4;
             r = byteAtNumber sampleData i;
             g = byteAtNumber sampleData (i + 1);
             b = byteAtNumber sampleData (i + 2)
         in if jsLess r 80 \<and> jsLess g 80 \<and> jsLess b 80 then s
            else
              (let key = (quantize r, quantize g, quantize b);
                   entry = (case colors s key of
                              None \<Rightarrow> \<lparr>bucket_r = r, bucket_g = g, bucket_b = b, bucket_count = 0\<rparr>
                            | Some e \<Rightarrow> e);
                   entry' = entry\<lparr>bucket_count := bucket_count entry + 1\<rparr>;
                   s' = s\<lparr>colors := (colors s)(key \<mapsto> entry')\<rparr>
               in if bucket_count entry' > maxCount s'
                  then s'\<lparr>maxCount := bucket_count entry', bgR := r, bgG := g, bgB := b\<rparr>
                  else s'))
      else s)"

text \<open>
  \<^verbatim>\<open>for (py = 0; py < sampleH; py++) for (px = 0; px < sampleW; px++)\<close> from the
  initial \<^verbatim>\<open>colors = {}\<close>, \<^verbatim>\<open>maxCount = 0\<close>, white background, and the resulting
  \<^verbatim>\<open>rgb(bgR, bgG, bgB)\<close>.  The counters run over the naturals below the bounds.
\<close>

definition inferBackground :: "real \<Rightarrow> real \<Rightarrow> byte list \<Rightarrow> style" where
  "inferBackground sampleW sampleH sampleData =
     (let s = fold (\<lambda>py. fold (sampleStep sampleW sampleH sampleData py) [0..<nat \<lceil>sampleW\<rceil>])
                [0..<nat \<lceil>sampleH\<rceil>]
                \<lparr>colors = Map.empty, maxCount = 0, bgR = Some 255, bgG = Some 255, bgB = Some 255\<rparr>
      in RgbTemplate (bgR s) (bgG s) (bgB s))"


section \<open>Specification notions for the background inference\<close>











section \<open>Pointer, wheel and keyboard handlers\<close>

text \<open>
  The canvas 2d primitives the handlers call are the browser's, not the
  repository's: they are parameters of the model.  \<open>fillRect\<close> and \<open>strokePath\<close>
  give the bytes of the buffer after painting (painting never resizes the
  canvas); \<open>strokePath\<close> takes the stroke style, line width, cap, join and the
  current path.  \<open>getImageData\<close> may raise
  (a zero-sized rectangle is an IndexSizeError); \<open>validColor\<close> tells whether an
  assignment to \<^verbatim>\<open>ctx.fillStyle\<close> is accepted (an unparsable colour is ignored).
\<close>

record browser =
  fillRect :: "style \<Rightarrow> real \<Rightarrow> real \<Rightarrow> real \<Rightarrow> real \<Rightarrow> imageData \<Rightarrow> byte list"
  strokePath :: "style \<Rightarrow> real \<Rightarrow> string \<Rightarrow> string \<Rightarrow> pos list \<Rightarrow> imageData \<Rightarrow> byte list"
  getImageData :: "imageData \<Rightarrow> real \<Rightarrow> real \<Rightarrow> real \<Rightarrow> real \<Rightarrow> error + byte list"
  validColor :: "style \<Rightarrow> bool"

text \<open>
  A mouse event (clientX, clientY, button) or a touch event with its \<^verbatim>\<open>touches\<close>
  list, given as the first touch and the others: the handlers are bound to
  touchstart and touchmove, whose list is never empty.
\<close>

record touchPoint =
  touch_clientX :: real
  touch_clientY :: real

datatype pointerEvent = MouseEvent real real int | TouchEvent touchPoint "touchPoint list"

record wheelEvent =
  wheel_ctrlKey :: bool
  wheel_metaKey :: bool
  wheel_shiftKey :: bool
  wheel_deltaX :: real
  wheel_deltaY :: real
  wheel_clientX :: real
  wheel_clientY :: real

text \<open>
  A keyboard event: \<^verbatim>\<open>code\<close>, \<^verbatim>\<open>key\<close>, the two modifiers, and whether the target
  is an input or a textarea element.
\<close>

record keyEvent =
  key_code :: string
  key_key :: string
  key_ctrlKey :: bool
  key_metaKey :: bool
  key_inTextInput :: bool

text \<open>\<^verbatim>\<open>'touches' in e && e.touches.length === 2\<close>.\<close>

definition twoTouches :: "pointerEvent \<Rightarrow> bool" where
  "twoTouches e = (case e of TouchEvent _ others \<Rightarrow> length others = 1 | MouseEvent _ _ _ \<Rightarrow> False)"

text \<open>\<^verbatim>\<open>(e as any).button === 1\<close>: a touch event has no button.\<close>

definition middleButton :: "pointerEvent \<Rightarrow> bool" where
  "middleButton e = (case e of MouseEvent _ _ b \<Rightarrow> b = 1 | TouchEvent _ _ \<Rightarrow> False)"

text \<open>
  \<^verbatim>\<open>'touches' in e ? e.touches[0].clientX : e.clientX\<close>, and the same for Y.
\<close>

definition firstClientX :: "pointerEvent \<Rightarrow> real" where
  "firstClientX e = (case e of TouchEvent t _ \<Rightarrow> touch_clientX t | MouseEvent cx _ _ \<Rightarrow> cx)"

definition firstClientY :: "pointerEvent \<Rightarrow> real" where
  "firstClientY e = (case e of TouchEvent t _ \<Rightarrow> touch_clientY t | MouseEvent _ cy _ \<Rightarrow> cy)"

text \<open>
  The distance and the midpoint of \<^verbatim>\<open>e.touches[0]\<close> and \<^verbatim>\<open>e.touches[1]\<close>, read
  only when there are two touches.
\<close>

definition secondTouch :: "pointerEvent \<Rightarrow> touchPoint" where
  "secondTouch e =
     (case e of
        TouchEvent t others \<Rightarrow> (case others of [] \<Rightarrow> t | u # _ \<Rightarrow> u)
      | MouseEvent cx cy _ \<Rightarrow> \<lparr>touch_clientX = cx, touch_clientY = cy\<rparr>)"

definition touchDistance :: "pointerEvent \<Rightarrow> real" where
  "touchDistance e =
     sqrt ((firstClientX e - touch_clientX (secondTouch e))\<^sup>2
         + (firstClientY e - touch_clientY (secondTouch e))\<^sup>2)"

definition touchMidpoint :: "pointerEvent \<Rightarrow> pos" where
  "touchMidpoint e =
     \<lparr>pos_x = (firstClientX e + touch_clientX (secondTouch e)) / 2,
      pos_y = (firstClientY e + touch_clientY (secondTouch e)) / 2\<rparr>"

text \<open>
  \<^verbatim>\<open>getMousePos(e)\<close>, for the bounding rectangle \<open>rect\<close> of the canvas at the time
  of the event.  A rectangle of zero width or height (a division by zero in
  JavaScript) is outside the model.
\<close>

definition getMousePos :: "editor \<Rightarrow> domRect \<Rightarrow> pointerEvent \<Rightarrow> pos" where
  "getMousePos st rect e =
     (case canvas st of
        None \<Rightarrow> \<lparr>pos_x = 0, pos_y = 0\<rparr>
      | Some c \<Rightarrow>
          (let clientX = firstClientX e; clientY = firstClientY e
           in if isRotated st then
                \<lparr>pos_x = (clientY - rect_top rect) * (real (width c) / rect_height rect),
                 pos_y = (rect_right rect - clientX) * (real (height c) / rect_width rect)\<rparr>
              else
                \<lparr>pos_x = (clientX - rect_left rect) * (real (width c) / rect_width rect),
                 pos_y = (clientY - rect_top rect) * (real (height c) / rect_height rect)\<rparr>))"

text \<open>
  \<^verbatim>\<open>handleWheel(e)\<close>; \<open>container\<close> is the bounding rectangle of the container
  element, \<^term>\<open>None\<close> while its ref is null.
\<close>

definition handleWheel :: "domRect option \<Rightarrow> wheelEvent \<Rightarrow> editor \<Rightarrow> editor" where
  "handleWheel container e st =
     (if wheel_ctrlKey e \<or> wheel_metaKey e then
        (let delta = - wheel_deltaY e;
             factor = 1.1 powr (delta / 100);
             newScale = min (max 0.1 (scale st * factor)) 10
         in case container of
              None \<Rightarrow> st
            | Some rect \<Rightarrow>
                if newScale \<noteq> scale st then
                  (let mouseX = wheel_clientX e - rect_left rect - rect_width rect / 2;
                       mouseY = wheel_clientY e - rect_top rect - rect_height rect / 2;
                       scaleRatio = newScale / scale st
                   in st\<lparr>panOffset :=
                            \<lparr>pos_x = mouseX - (mouseX - pos_x (panOffset st)) * scaleRatio,
                             pos_y = mouseY - (mouseY - pos_y (panOffset st)) * scaleRatio\<rparr>,
                          scale := newScale\<rparr>)
                else st)
      else
        (let dx0 = wheel_deltaX e; dy0 = wheel_deltaY e;
             dx = (if wheel_shiftKey e \<and> dx0 = 0 then dy0 else dx0);
             dy = (if wheel_shiftKey e \<and> dx0 = 0 then 0 else dy0)
         in if isRotated st then
              st\<lparr>panOffset := \<lparr>pos_x = pos_x (panOffset st) - dy, pos_y = pos_y (panOffset st) + dx\<rparr>\<rparr>
            else
              st\<lparr>panOffset := \<lparr>pos_x = pos_x (panOffset st) - dx, pos_y = pos_y (panOffset st) - dy\<rparr>\<rparr>))"

text \<open>
  \<^verbatim>\<open>sampleColorAt(x, y)\<close>: the pipette reads one pixel and stores its colour as the
  manual background colour.  In \<^verbatim>\<open>(1 << 24) + (p0 << 16) + (p1 << 8) + p2\<close> a shift
  of \<^verbatim>\<open>undefined\<close> is 0 and a sum with \<^verbatim>\<open>undefined\<close> is NaN.
\<close>

definition shiftLeft :: "int option \<Rightarrow> nat \<Rightarrow> int" where
  "shiftLeft v k = (case v of None \<Rightarrow> 0 | Some a \<Rightarrow> a * 2 ^ k)"

definition sampleColorAt :: "browser \<Rightarrow> real \<Rightarrow> real \<Rightarrow> editor \<Rightarrow> error + editor" where
  "sampleColorAt B x y st =
     (case canvas st of
        None \<Rightarrow> Inr st
      | Some c \<Rightarrow>
          (case getImageData B c (of_int \<lfloor>x\<rfloor>) (of_int \<lfloor>y\<rfloor>) 1 1 of
             Inl err \<Rightarrow> Inl err
           | Inr pixel \<Rightarrow>
               (let color = HexNumber
                      (case byteAt pixel 2 of
                         None \<Rightarrow> None
                       | Some p2 \<Rightarrow>
                           Some (2 ^ 24 + shiftLeft (byteAt pixel 0) 16 + shiftLeft (byteAt pixel 1) 8 + p2))
                in Inr (st\<lparr>manualBgColor := color, useManualColor := True, tool := RemoveText\<rparr>))))"

text \<open>
  \<^verbatim>\<open>handlePointerDown(e)\<close>.  \<^term>\<open>None\<close> stands for a colour-wand traversal that
  never ends; \<^term>\<open>Inl\<close> for an exception of the browser.
\<close>

definition handlePointerDown ::
  "browser \<Rightarrow> domRect \<Rightarrow> pointerEvent \<Rightarrow> editor \<Rightarrow> (error + editor) option" where
  "handlePointerDown B rect e st =
     (if twoTouches e then
        Some (Inr (st\<lparr>isDrawing := False, isPanning := True,
                      lastTouchDistance := Some (touchDistance e),
                      lastPanPos := touchMidpoint e\<rparr>))
      else if tool st = Hand \<or> middleButton e then
        Some (Inr (st\<lparr>isPanning := True,
                      lastPanPos := \<lparr>pos_x = firstClientX e, pos_y = firstClientY e\<rparr>\<rparr>))
      else
        (let p = getMousePos st rect e;
             st1 = st\<lparr>startPos := p, currentPos := p, isDrawing := True\<rparr>;
             st2 = (if tool st = Brush \<and> canvas st \<noteq> None
                    then st1\<lparr>ctxPath := [p], ctxLineCap := ''round'', ctxLineJoin := ''round'',
                             ctxStrokeStyle := CssText ''#FFFFFF'', ctxLineWidth := brushSize st\<rparr>
                    else st1)
         in if tool st = Wand then
              (case removeColorAt (pos_x p) (pos_y p) st2 of
                 None \<Rightarrow> None
               | Some st3 \<Rightarrow> Some (Inr (st3\<lparr>isDrawing := False\<rparr>)))
            else if tool st = Pipette then
              (case sampleColorAt B (pos_x p) (pos_y p) st2 of
                 Inl err \<Rightarrow> Some (Inl err)
               | Inr st3 \<Rightarrow> Some (Inr (st3\<lparr>isDrawing := False\<rparr>)))
            else Some (Inr st2)))"

text \<open>\<^verbatim>\<open>handlePointerMove(e)\<close>.\<close>

definition handlePointerMove :: "browser \<Rightarrow> domRect \<Rightarrow> pointerEvent \<Rightarrow> editor \<Rightarrow> editor" where
  "handlePointerMove B rect e st =
     (if twoTouches e \<and> lastTouchDistance st \<noteq> None then
        (let dist = touchDistance e;
             delta = dist / the (lastTouchDistance st);
             mid = touchMidpoint e;
             dx = pos_x mid - pos_x (lastPanPos st);
             dy = pos_y mid - pos_y (lastPanPos st)
         in st\<lparr>scale := min (max 0.1 (scale st * delta)) 5,
                lastTouchDistance := Some dist,
                panOffset := \<lparr>pos_x = pos_x (panOffset st) + dx, pos_y = pos_y (panOffset st) + dy\<rparr>,
                lastPanPos := mid\<rparr>)
      else if isPanning st then
        (let clientX = firstClientX e; clientY = firstClientY e;
             dx = clientX - pos_x (lastPanPos st);
             dy = clientY - pos_y (lastPanPos st)
         in st\<lparr>panOffset := \<lparr>pos_x = pos_x (panOffset st) + dx, pos_y = pos_y (panOffset st) + dy\<rparr>,
                lastPanPos := \<lparr>pos_x = clientX, pos_y = clientY\<rparr>\<rparr>)
      else if \<not> isDrawing st \<or> tool st = Wand then st
      else
        (let p = getMousePos st rect e;
             st1 = (if tool st = Brush then
                      (case canvas st of
                         None \<Rightarrow> st
                       | Some c \<Rightarrow>
                           (let path = ctxPath st @ [p]
                            in st\<lparr>ctxPath := path,
                                   canvas := Some (c\<lparr>data := strokePath B (ctxStrokeStyle st)
                                                     (ctxLineWidth st) (ctxLineCap st) (ctxLineJoin st)
                                                     path c\<rparr>)\<rparr>))
                    else st)
         in st1\<lparr>currentPos := p\<rparr>))"

text \<open>
  An assignment to \<^verbatim>\<open>ctx.fillStyle\<close>, and \<^verbatim>\<open>ctx.fillRect(x, y, w, h)\<close> with the
  current fill style.
\<close>

definition setFillStyle :: "browser \<Rightarrow> style \<Rightarrow> editor \<Rightarrow> editor" where
  "setFillStyle B c st = (if validColor B c then st\<lparr>ctxFillStyle := c\<rparr> else st)"

definition ctxFillRect :: "browser \<Rightarrow> real \<Rightarrow> real \<Rightarrow> real \<Rightarrow> real \<Rightarrow> editor \<Rightarrow> editor" where
  "ctxFillRect B x y w h st =
     st\<lparr>canvas := map_option (\<lambda>c. c\<lparr>data := fillRect B (ctxFillStyle st) x y w h c\<rparr>) (canvas st)\<rparr>"

text \<open>\<^verbatim>\<open>handlePointerUp()\<close>.\<close>

definition handlePointerUp :: "browser \<Rightarrow> editor \<Rightarrow> error + editor" where
  "handlePointerUp B st0 =
     (let st = st0\<lparr>lastTouchDistance := None\<rparr>
      in if isPanning st then Inr (st\<lparr>isPanning := False\<rparr>)
         else if \<not> isDrawing st then Inr st
         else
           (let st1 = st\<lparr>isDrawing := False\<rparr>
            in case canvas st1 of
                 None \<Rightarrow> Inr st1
               | Some c \<Rightarrow>
                   (let x = min (pos_x (startPos st)) (pos_x (currentPos st));
                        y = min (pos_y (startPos st)) (pos_y (currentPos st));
                        w = \<bar>pos_x (currentPos st) - pos_x (startPos st)\<bar>;
                        h = \<bar>pos_y (currentPos st) - pos_y (startPos st)\<bar>
                    in if w = 0 \<or> h = 0 then Inr st1
                       else if tool st = Eraser then
                         Inr (saveState (ctxFillRect B x y w h (setFillStyle B (CssText ''#FFFFFF'') st1)))
                       else if tool st = Brush then Inr (saveState st1)
                       else if tool st = TextBox then
                         Inr (st1\<lparr>pendingTextBox := Some \<lparr>box_x = x, box_y = y, box_w = w, box_h = h\<rparr>,
                                  isEnteringText := True\<rparr>)
                       else if tool st = RemoveText then
                         (if useManualColor st then
                            Inr (saveState (ctxFillRect B x y w h (setFillStyle B (manualBgColor st) st1)))
                          else
                            (let samplePadding = 2;
                                 sampleX = max 0 (x - samplePadding);
                                 sampleY = max 0 (y - samplePadding);
                                 sampleW = min (real (width c) - sampleX) (w + samplePadding * 2);
                                 sampleH = min (real (height c) - sampleY) (h + samplePadding * 2)
                             in case getImageData B c sampleX sampleY sampleW sampleH of
                                  Inl err \<Rightarrow> Inl err
                                | Inr sampleData \<Rightarrow>
                                    Inr (saveState (ctxFillRect B x y w h
                                           (setFillStyle B (inferBackground sampleW sampleH sampleData) st1)))))
                       else Inr st1)))"

text \<open>
  \<^verbatim>\<open>resetView()\<close>; \<open>container\<close> is the client width and height of the container
  element, \<^term>\<open>None\<close> while its ref is null.
\<close>

definition resetView :: "(real \<times> real) option \<Rightarrow> editor \<Rightarrow> editor" where
  "resetView container st =
     (let st1 = st\<lparr>panOffset := \<lparr>pos_x = 0, pos_y = 0\<rparr>\<rparr>
      in case container of
           None \<Rightarrow> st1\<lparr>scale := 1\<rparr>
         | Some (clientWidth, clientHeight) \<Rightarrow>
             if imageLoaded st then
               (let containerWidth = clientWidth - 40;
                    containerHeight = clientHeight - 40;
                    availW = (if isRotated st then containerHeight else containerWidth);
                    availH = (if isRotated st then containerWidth else containerHeight);
                    fitScale = min (min (availW / real (fst (imageSize st)))
                                        (availH / real (snd (imageSize st)))) 1
                in st1\<lparr>scale := fitScale\<rparr>)
             else st1\<lparr>scale := 1\<rparr>)"

text \<open>
  \<^verbatim>\<open>handleKeyDown(e)\<close>: the space bar switches to the hand tool; with Ctrl or
  Meta, \<^verbatim>\<open>=\<close> or \<^verbatim>\<open>+\<close> zooms in, \<^verbatim>\<open>-\<close> zooms out and \<^verbatim>\<open>0\<close> resets the view.
\<close>

definition handleKeyDown :: "(real \<times> real) option \<Rightarrow> keyEvent \<Rightarrow> editor \<Rightarrow> editor" where
  "handleKeyDown container e st =
     (if key_inTextInput e then st
      else
        (let st1 = (if key_code e = ''Space'' \<and> tool st \<noteq> Hand
                    then st\<lparr>prevTool := tool st, tool := Hand\<rparr> else st)
         in if key_ctrlKey e \<or> key_metaKey e then
              (if key_key e = ''='' \<or> key_key e = ''+'' then st1\<lparr>scale := min 10 (scale st1 + 0.2)\<rparr>
               else if key_key e = ''-'' then st1\<lparr>scale := max 0.1 (scale st1 - 0.2)\<rparr>
               else if key_key e = ''0'' then resetView container st1
               else st1)
            else st1))"

text \<open>The zoom-out and zoom-in buttons.\<close>

definition zoomOutButton :: "editor \<Rightarrow> editor" where
  "zoomOutButton st = st\<lparr>scale := max 0.1 (scale st - 0.1)\<rparr>"

definition zoomInButton :: "editor \<Rightarrow> editor" where
  "zoomInButton st = st\<lparr>scale := min 10 (scale st + 0.2)\<rparr>"

section \<open>Specification notions for the handlers, and examples\<close>

text \<open>
  What a pan or zoom operation may change: the view state (\<open>scale\<close>,
  \<open>panOffset\<close>) and the bookkeeping of the pointer gesture (\<open>isPanning\<close>,
  \<open>isDrawing\<close>, \<open>lastPanPos\<close>, \<open>lastTouchDistance\<close>).  Buffer and history, and
  every other field, stay as they are.
\<close>

definition viewOnly :: "editor \<Rightarrow> editor \<Rightarrow> bool" where
  "viewOnly st st' \<longleftrightarrow>
     canvas st' = canvas st \<and> history st' = history st \<and> historyIndex st' = historyIndex st \<and>
     st' = st\<lparr>scale := scale st', panOffset := panOffset st', isPanning := isPanning st',
              isDrawing := isDrawing st', lastPanPos := lastPanPos st',
              lastTouchDistance := lastTouchDistance st'\<rparr>"

text \<open>Small buffers and a canvas rectangle for the examples.\<close>

definition blue22 :: imageData where
  "blue22 = \<lparr>width = 2, height = 2,
     data = [120, 120, 200, 255,  120, 120, 200, 255,  120, 120, 200, 255,  120, 120, 200, 255]\<rparr>"

definition white44 :: imageData where
  "white44 = \<lparr>width = 4, height = 4, data = replicate 64 255\<rparr>"

definition rectAt :: "real \<Rightarrow> real \<Rightarrow> real \<Rightarrow> real \<Rightarrow> domRect" where
  "rectAt l t w h =
     \<lparr>rect_left = l, rect_top = t, rect_right = l + w, rect_width = w, rect_height = h\<rparr>"

definition plainWheel :: "real \<Rightarrow> real \<Rightarrow> wheelEvent" where
  "plainWheel dx dy =
     \<lparr>wheel_ctrlKey = False, wheel_metaKey = False, wheel_shiftKey = False,
      wheel_deltaX = dx, wheel_deltaY = dy, wheel_clientX = 0, wheel_clientY = 0\<rparr>"

definition zoomKey :: "string \<Rightarrow> keyEvent" where
  "zoomKey k =
     \<lparr>key_code = ''Equal'', key_key = k, key_ctrlKey = True, key_metaKey = False,
      key_inTextInput = False\<rparr>"

text \<open>
  A browser whose drawing primitives paint nothing and whose reads return no
  bytes, for examples in which no primitive is called.
\<close>

definition idleBrowser :: browser where
  "idleBrowser =
     \<lparr>fillRect = (\<lambda>_ _ _ _ _ c. data c), strokePath = (\<lambda>_ _ _ _ _ c. data c),
      getImageData = (\<lambda>_ _ _ _ _. Inr []), validColor = (\<lambda>_. True)\<rparr>"

text \<open>Two states with the same buffer, history and history index.\<close>

definition sameDocument :: "editor \<Rightarrow> editor \<Rightarrow> bool" where
  "sameDocument a b \<longleftrightarrow>
     canvas a = canvas b \<and> history a = history b \<and> historyIndex a = historyIndex b"

section \<open>Properties of the history stack\<close>

lemma slice0_full: "slice0 xs (int (length xs)) = xs"
  by (simp add: slice0_def)

lemma saveState_Some:
  "canvas st = Some c \<Longrightarrow>
   saveState st = st\<lparr>history := slice0 (history st) (historyIndex st + 1) @ [c],
     historyIndex := int (length (slice0 (history st) (historyIndex st + 1)))\<rparr>"
  by (simp add: saveState_def Let_def)

lemma saveState_top:
  "canvas st = Some c \<Longrightarrow> historyIndex st = int (length (history st)) - 1 \<Longrightarrow>
   saveState st = st\<lparr>history := history st @ [c], historyIndex := int (length (history st))\<rparr>"
  by (simp add: saveState_Some slice0_full)

lemma fold_commitPainted:
  "canvas st = Some c \<Longrightarrow> historyIndex st = int (length (history st)) - 1 \<Longrightarrow> ps \<noteq> [] \<Longrightarrow>
   fold commitPainted ps st =
     st\<lparr>canvas := Some (last ps), history := history st @ ps,
        historyIndex := int (length (history st) + length ps) - 1\<rparr>"
proof (induction ps arbitrary: st c)
  case Nil
  then show ?case by simp
next
  case (Cons p ps)
  let ?st1 = "commitPainted p st"
  have st1: "?st1 = st\<lparr>canvas := Some p, history := history st @ [p],
      historyIndex := int (length (history st))\<rparr>"
    using Cons.prems(2) by (simp add: commitPainted_def saveState_top)
  show ?case
  proof (cases "ps = []")
    case True
    then show ?thesis by (simp add: st1)
  next
    case False
    have "fold commitPainted ps ?st1 =
      ?st1\<lparr>canvas := Some (last ps), history := history ?st1 @ ps,
        historyIndex := int (length (history ?st1) + length ps) - 1\<rparr>"
      by (rule Cons.IH[of _ p]) (simp_all add: st1 False)
    then show ?thesis using False by (simp add: st1)
  qed
qed

lemma undoTimes_back:
  "canvas st = Some (history st ! (k + n)) \<Longrightarrow> historyIndex st = int (k + n) \<Longrightarrow>
   k + n < length (history st) \<Longrightarrow>
   undoTimes n st = Inr (st\<lparr>historyIndex := int k, canvas := Some (history st ! k)\<rparr>)"
proof (induction n arbitrary: st)
  case 0
  then show ?case by simp
next
  case (Suc n)
  let ?st1 = "st\<lparr>historyIndex := int (k + n), canvas := Some (history st ! (k + n))\<rparr>"
  have u: "undo st = Inr ?st1"
    using Suc.prems by (simp add: undo_def putImageData_def historyAt_def Let_def nat_int_add)
  have "undoTimes n ?st1 = Inr (?st1\<lparr>historyIndex := int k, canvas := Some (history ?st1 ! k)\<rparr>)"
    by (rule Suc.IH) (use Suc.prems in simp_all)
  then show ?case by (simp add: u)
qed

text \<open>
  C4. After the image load, any sequence of \<open>N\<close> committed operations followed by
  \<open>N\<close> undos succeeds and leaves the buffer equal to the baseline snapshot, the
  loaded image.
\<close>

theorem undo_all_restores_baseline:
  assumes "canvas st \<noteq> None"
  shows "\<exists>st'. undoTimes (length ps) (fold commitPainted ps (loadImage img st)) = Inr st'
           \<and> canvas st' = Some img"
proof -
  obtain c where c: "canvas st = Some c" using assms by auto
  define s0 where "s0 = loadImage img st"
  define h0 where "h0 = slice0 (history st) (historyIndex st + 1)"
  have s0: "canvas s0 = Some img" "history s0 = h0 @ [img]" "historyIndex s0 = int (length h0)"
    by (simp_all add: s0_def loadImage_def c saveState_Some h0_def)
  show ?thesis
  proof (cases "ps = []")
    case True
    then show ?thesis using s0 by (simp add: s0_def)
  next
    case False
    define s1 where "s1 = fold commitPainted ps s0"
    have s1: "s1 = s0\<lparr>canvas := Some (last ps), history := history s0 @ ps,
        historyIndex := int (length (history s0) + length ps) - 1\<rparr>"
      unfolding s1_def by (rule fold_commitPainted[of _ img]) (simp_all add: s0 False)
    have "undoTimes (length ps) s1 =
        Inr (s1\<lparr>historyIndex := int (length h0), canvas := Some (history s1 ! length h0)\<rparr>)"
      by (rule undoTimes_back) (use False in \<open>simp_all add: s1 s0 last_conv_nth nth_append\<close>)
    moreover have "history s1 ! length h0 = img"
      by (simp add: s1 s0 nth_append)
    ultimately have "\<exists>st'. undoTimes (length ps) s1 = Inr st' \<and> canvas st' = Some img"
      by simp
    then show ?thesis unfolding s1_def s0_def .
  qed
qed

theorem undo_all_restores_baseline_witness:
  "canvas (initialEditor (Some (px1 [0, 0, 0, 0]))) \<noteq> None \<and>
   (\<exists>st'. undoTimes (length [px1 [255, 255, 255, 255], px1 [9, 9, 9, 255]])
            (fold commitPainted [px1 [255, 255, 255, 255], px1 [9, 9, 9, 255]]
               (loadImage (px1 [1, 2, 3, 255]) (initialEditor (Some (px1 [0, 0, 0, 0]))))) = Inr st'
          \<and> canvas st' = Some (px1 [1, 2, 3, 255]))"
proof -
  have h: "canvas (initialEditor (Some (px1 [0, 0, 0, 0]))) \<noteq> None"
    by (simp add: initialEditor_def)
  show ?thesis
    using h undo_all_restores_baseline [OF h, of "[px1 [255, 255, 255, 255], px1 [9, 9, 9, 255]]"
      "px1 [1, 2, 3, 255]"] by blast
qed

text \<open>
  C5. A snapshot pushed while the index is below the last entry (after undos)
  replaces everything after the index: the history is the first \<open>index + 1\<close> old
  entries followed by the new snapshot, the index is the new last position, and
  redo has nothing left to restore.
\<close>

theorem saveState_prunes_redo:
  assumes "canvas st = Some c" and "0 \<le> historyIndex st"
    and "historyIndex st < int (length (history st)) - 1"
  shows "history (saveState st) = take (nat (historyIndex st) + 1) (history st) @ [c]
       \<and> historyIndex (saveState st) = int (length (history (saveState st))) - 1
       \<and> historyIndex (saveState st) = historyIndex st + 1
       \<and> redo (saveState st) = Inr (saveState st)"
proof -
  have sl: "slice0 (history st) (historyIndex st + 1) = take (nat (historyIndex st) + 1) (history st)"
    using assms(2,3) by (simp add: slice0_def Let_def nat_add_distrib)
  have len: "length (take (nat (historyIndex st) + 1) (history st)) = nat (historyIndex st) + 1"
    using assms(2,3) by simp
  show ?thesis
    using assms(2,3) by (simp add: saveState_Some[OF assms(1)] sl len redo_def)
qed

theorem saveState_prunes_redo_witness:
  "canvas ((initialEditor (Some (px1 [7, 7, 7, 255])))
      \<lparr>history := [px1 [1, 1, 1, 255], px1 [2, 2, 2, 255], px1 [3, 3, 3, 255]],
       historyIndex := 0\<rparr>) = Some (px1 [7, 7, 7, 255]) \<and>
   history (saveState ((initialEditor (Some (px1 [7, 7, 7, 255])))
      \<lparr>history := [px1 [1, 1, 1, 255], px1 [2, 2, 2, 255], px1 [3, 3, 3, 255]],
       historyIndex := 0\<rparr>)) = [px1 [1, 1, 1, 255], px1 [7, 7, 7, 255]] \<and>
   historyIndex (saveState ((initialEditor (Some (px1 [7, 7, 7, 255])))
      \<lparr>history := [px1 [1, 1, 1, 255], px1 [2, 2, 2, 255], px1 [3, 3, 3, 255]],
       historyIndex := 0\<rparr>)) = 1 \<and>
   redo (saveState ((initialEditor (Some (px1 [7, 7, 7, 255])))
      \<lparr>history := [px1 [1, 1, 1, 255], px1 [2, 2, 2, 255], px1 [3, 3, 3, 255]],
       historyIndex := 0\<rparr>)) =
     Inr (saveState ((initialEditor (Some (px1 [7, 7, 7, 255])))
      \<lparr>history := [px1 [1, 1, 1, 255], px1 [2, 2, 2, 255], px1 [3, 3, 3, 255]],
       historyIndex := 0\<rparr>))"
  using saveState_prunes_redo [of "(initialEditor (Some (px1 [7, 7, 7, 255])))
      \<lparr>history := [px1 [1, 1, 1, 255], px1 [2, 2, 2, 255], px1 [3, 3, 3, 255]],
       historyIndex := 0\<rparr>" "px1 [7, 7, 7, 255]"]
  by (simp add: initialEditor_def)

section \<open>Properties of the colour wand\<close>

declare floodLoop.simps [code]

lemma sqrt_less_tolerance: "sqrt (real_of_int n) < tolerance \<longleftrightarrow> n < 1600"
proof -
  have "sqrt (real_of_int n) < sqrt 1600 \<longleftrightarrow> real_of_int n < 1600"
    by (rule real_sqrt_less_iff)
  moreover have "sqrt 1600 = 40"
    using real_sqrt_abs[of 40] by simp
  ultimately show ?thesis by (simp add: tolerance_def)
qed

lemma matchColor_Some [code]:
  "matchColor (tr, tg, tb) (r, g, b) =
     (case tr of None \<Rightarrow> False | Some targetR \<Rightarrow>
      case tg of None \<Rightarrow> False | Some targetG \<Rightarrow>
      case tb of None \<Rightarrow> False | Some targetB \<Rightarrow>
      case r of None \<Rightarrow> False | Some r' \<Rightarrow>
      case g of None \<Rightarrow> False | Some g' \<Rightarrow>
      case b of None \<Rightarrow> False | Some b' \<Rightarrow>
        (r' - targetR)\<^sup>2 + (g' - targetG)\<^sup>2 + (b' - targetB)\<^sup>2 < 1600)"
  by (cases tr; cases tg; cases tb; cases r; cases g; cases b)
    (simp_all only: matchColor.simps sqrt_less_tolerance option.case)

lemma unvisited_update:
  "i < length v \<Longrightarrow> \<not> v ! i \<Longrightarrow> Suc (unvisited (v[i := True])) = unvisited v"
  unfolding unvisited_def
proof (induction v arbitrary: i)
  case Nil
  then show ?case by simp
next
  case (Cons a v)
  then show ?case by (cases i) auto
qed

lemma unvisited_replicate: "unvisited (replicate n False) = n"
  by (simp add: unvisited_def)

lemma length_pushIf: "length (pushIf c a b s) \<le> length s + 2"
  by (simp add: pushIf_def)

lemma matchColor_None: "matchColor t (None, g, b) = False"
  by (cases t) (simp add: matchColor_Some split: option.splits)

lemma floodStep_decreases:
  assumes len: "length (fs_data s) \<le> 4 * length (fs_visited s)" and ne: "fs_stack s \<noteq> []"
  shows "floodPotential (floodStep w h t s) < floodPotential s
       \<and> length (fs_data (floodStep w h t s)) = length (fs_data s)
       \<and> length (fs_visited (floodStep w h t s)) = length (fs_visited s)"
proof (cases "fs_stack s")
  case Nil
  with ne show ?thesis by simp
next
  case (Cons y ys)
  show ?thesis
  proof (cases ys)
    case Nil
    with Cons show ?thesis by (simp add: floodStep_def floodPotential_def)
  next
    case (Cons x rest)
    note stk = \<open>fs_stack s = y # ys\<close> Cons
    let ?idx = "y * w + x"
    show ?thesis
    proof (cases "visitedAt (fs_visited s) ?idx")
      case True
      then show ?thesis using stk by (simp add: floodStep_def floodPotential_def)
    next
      case unv: False
      show ?thesis
      proof (cases "?idx < length (fs_visited s)")
        case False
        then have same: "(fs_visited s)[?idx := True] = fs_visited s"
          by (intro list_update_beyond) simp
        from False have "byteAt (fs_data s) (?idx * 4) = None"
          using len by (simp add: byteAt_def)
        then have "\<not> matchColor t (rgbAt (fs_data s) (?idx * 4))"
          by (simp add: rgbAt_def matchColor_None)
        then show ?thesis using stk unv same
          by (simp add: floodStep_def floodPotential_def Let_def)
      next
        case True
        then have u: "Suc (unvisited ((fs_visited s)[?idx := True])) = unvisited (fs_visited s)"
          using unv by (intro unvisited_update) (simp_all add: visitedAt_def)
        show ?thesis
        proof (cases "matchColor t (rgbAt (fs_data s) (?idx * 4))")
          case False
          then show ?thesis using stk unv u
            by (simp add: floodStep_def floodPotential_def Let_def)
        next
          case True
          define v' where "v' = (fs_visited s)[?idx := True]"
          define s1 where "s1 = pushIf (x > 0 \<and> \<not> visitedAt v' (?idx - 1)) (x - 1) y rest"
          define s2 where "s2 = pushIf (x < w - 1 \<and> \<not> visitedAt v' (?idx + 1)) (x + 1) y s1"
          define s3 where "s3 = pushIf (y > 0 \<and> \<not> visitedAt v' (?idx - w)) x (y - 1) s2"
          define s4 where "s4 = pushIf (y < h - 1 \<and> \<not> visitedAt v' (?idx + w)) x (y + 1) s3"
          have res: "fs_visited (floodStep w h t s) = v'" "fs_stack (floodStep w h t s) = s4"
            "length (fs_data (floodStep w h t s)) = length (fs_data s)"
            using stk unv True
            by (simp_all add: floodStep_def Let_def v'_def s1_def s2_def s3_def s4_def)
          have "length s1 \<le> length rest + 2" unfolding s1_def by (rule length_pushIf)
          moreover have "length s2 \<le> length s1 + 2" unfolding s2_def by (rule length_pushIf)
          moreover have "length s3 \<le> length s2 + 2" unfolding s3_def by (rule length_pushIf)
          moreover have "length s4 \<le> length s3 + 2" unfolding s4_def by (rule length_pushIf)
          ultimately have "length s4 \<le> length rest + 8" by linarith
          then show ?thesis using u stk
            by (simp add: res floodPotential_def v'_def)
        qed
      qed
    qed
  qed
qed

lemma floodLoop_terminates:
  assumes "length (fs_data s) \<le> 4 * length (fs_visited s)"
  shows "\<exists>n \<le> floodPotential s. fs_stack ((floodStep w h t ^^ n) s) = []
            \<and> floodLoop w h t s = Some ((floodStep w h t ^^ n) s)"
  using assms
proof (induction "floodPotential s" arbitrary: s rule: less_induct)
  case less
  show ?case
  proof (cases "fs_stack s = []")
    case True
    then have "fs_stack ((floodStep w h t ^^ 0) s) = []
        \<and> floodLoop w h t s = Some ((floodStep w h t ^^ 0) s)"
      by (simp add: floodLoop.simps)
    then show ?thesis by blast
  next
    case False
    let ?s' = "floodStep w h t s"
    have dec: "floodPotential ?s' < floodPotential s"
      and len': "length (fs_data ?s') \<le> 4 * length (fs_visited ?s')"
      using floodStep_decreases[OF less.prems False, of w h t] less.prems by simp_all
    obtain n where n: "n \<le> floodPotential ?s'" "fs_stack ((floodStep w h t ^^ n) ?s') = []"
      "floodLoop w h t ?s' = Some ((floodStep w h t ^^ n) ?s')"
      using less.hyps[OF dec len'] by blast
    have "floodLoop w h t s = floodLoop w h t ?s'"
      using False by (subst floodLoop.simps) simp
    then have "Suc n \<le> floodPotential s \<and> fs_stack ((floodStep w h t ^^ Suc n) s) = []
        \<and> floodLoop w h t s = Some ((floodStep w h t ^^ Suc n) s)"
      using n dec by (simp add: funpow_swap1)
    then show ?thesis by blast
  qed
qed

lemma onStack_pushIf [simp]:
  "onStack x y (pushIf c a b s) \<longleftrightarrow> (c \<and> a = x \<and> b = y) \<or> onStack x y s"
  by (simp add: pushIf_def)

lemma stackOK_pushIf [simp]:
  "stackOK w h (pushIf c a b s) \<longleftrightarrow> (c \<longrightarrow> a < w \<and> b < h) \<and> stackOK w h s"
  by (simp add: pushIf_def)

lemma idx_div: "x < w \<Longrightarrow> (y * w + x) div w = (y::nat)"
  by simp

lemma idx_mod: "x < w \<Longrightarrow> (y * w + x) mod w = (x::nat)"
  by simp

lemma idx_inj: "x < w \<Longrightarrow> x' < w \<Longrightarrow> y * w + x = y' * w + x' \<longleftrightarrow> x = x' \<and> y = (y'::nat)"
  by (metis idx_div idx_mod)

lemma idx_bound: "x < w \<Longrightarrow> y < h \<Longrightarrow> y * w + x < w * (h::nat)"
proof -
  assume a: "x < w" "y < h"
  then have "y * w + x < Suc y * w" by simp
  also have "\<dots> \<le> h * w" using a(2) by (intro mult_le_mono1) simp
  finally show ?thesis by (simp add: mult.commute)
qed

lemma visitedAt_update:
  "visitedAt (v[i := True]) j \<longleftrightarrow> visitedAt v j \<or> (j = i \<and> i < length v)"
  by (cases "i = j") (auto simp: visitedAt_def)

lemma rgbaAt_update_same:
  "i * 4 + 3 < length d \<Longrightarrow>
   rgbaAt (d[i * 4 := a, i * 4 + 1 := b, i * 4 + 2 := c, i * 4 + 3 := e]) (i * 4) = (a, b, c, e)"
  by (simp add: rgbaAt_def)

lemma rgbaAt_update_other:
  "j \<noteq> i \<Longrightarrow>
   rgbaAt (d[i * 4 := a, i * 4 + 1 := b, i * 4 + 2 := c, i * 4 + 3 := e]) (j * 4) = rgbaAt d (j * 4)"
  by (simp add: rgbaAt_def)

lemma rgbAt_cong:
  "p + 3 < length d \<Longrightarrow> length d' = length d \<Longrightarrow> rgbaAt d p = rgbaAt d' p \<Longrightarrow> rgbAt d p = rgbAt d' p"
  by (simp add: rgbAt_def rgbaAt_def byteAt_def)

lemma pushIf_cong: "c = c' \<Longrightarrow> pushIf c a b s = pushIf c' a b s"
  by simp

lemma floodStep_visited:
  "fs_stack s = y # x # rest \<Longrightarrow> visitedAt (fs_visited s) (y * w + x) \<Longrightarrow>
   floodStep w h t s = s\<lparr>fs_stack := rest\<rparr>"
  by (simp add: floodStep_def)

lemma floodStep_nomatch:
  "fs_stack s = y # x # rest \<Longrightarrow> \<not> visitedAt (fs_visited s) (y * w + x) \<Longrightarrow>
   \<not> matchColor t (rgbAt (fs_data s) ((y * w + x) * 4)) \<Longrightarrow>
   floodStep w h t s = s\<lparr>fs_visited := (fs_visited s)[y * w + x := True], fs_stack := rest\<rparr>"
  by (simp add: floodStep_def Let_def)

lemma floodStep_match:
  assumes "fs_stack s = y # x # rest" and "\<not> visitedAt (fs_visited s) (y * w + x)"
    and "matchColor t (rgbAt (fs_data s) ((y * w + x) * 4))"
    and v': "v' = (fs_visited s)[y * w + x := True]"
  shows "floodStep w h t s =
    \<lparr>fs_data = (fs_data s)[(y * w + x) * 4 := 255, (y * w + x) * 4 + 1 := 255,
                            (y * w + x) * 4 + 2 := 255, (y * w + x) * 4 + 3 := 255],
     fs_visited = v',
     fs_stack =
       pushIf (y + 1 < h \<and> \<not> visitedAt v' ((y + 1) * w + x)) x (y + 1)
        (pushIf (0 < y \<and> \<not> visitedAt v' ((y - 1) * w + x)) x (y - 1)
          (pushIf (x + 1 < w \<and> \<not> visitedAt v' (y * w + (x + 1))) (x + 1) y
            (pushIf (0 < x \<and> \<not> visitedAt v' (y * w + (x - 1))) (x - 1) y rest)))\<rparr>"
proof -
  have i1: "0 < x \<Longrightarrow> y * w + x - 1 = y * w + (x - 1)" by simp
  have i2: "y * w + x + 1 = y * w + (x + 1)" by simp
  have i3: "0 < y \<Longrightarrow> y * w + x - w = (y - 1) * w + x"
    by (cases y) simp_all
  have i4: "y * w + x + w = (y + 1) * w + x" by simp
  have c1: "(x > 0 \<and> \<not> visitedAt v' (y * w + x - 1)) = (0 < x \<and> \<not> visitedAt v' (y * w + (x - 1)))"
    by (cases "0 < x") (simp_all only: i1 simp_thms)
  have c2: "(x < w - 1 \<and> \<not> visitedAt v' (y * w + x + 1)) = (x + 1 < w \<and> \<not> visitedAt v' (y * w + (x + 1)))"
    by (simp only: i2 less_diff_conv)
  have c3: "(y > 0 \<and> \<not> visitedAt v' (y * w + x - w)) = (0 < y \<and> \<not> visitedAt v' ((y - 1) * w + x))"
    by (cases "0 < y") (simp_all only: i3 simp_thms)
  have c4: "(y < h - 1 \<and> \<not> visitedAt v' (y * w + x + w)) = (y + 1 < h \<and> \<not> visitedAt v' ((y + 1) * w + x))"
    by (simp only: i4 less_diff_conv)
  show ?thesis
    using assms(1,2,3)
    unfolding floodStep_def Let_def v'
    by (simp only: list.case if_False if_True c1[unfolded v'] c2[unfolded v'] c3[unfolded v'] c4[unfolded v'])
qed

lemma floodInvI:
  assumes "length (fs_data s) = w * h * 4" "length (fs_visited s) = w * h"
    and "stackOK w h (fs_stack s)"
    and "\<And>a b. onStack a b (fs_stack s) \<Longrightarrow> matchesAt w d0 t a b \<Longrightarrow>
        (a, b) \<in> region w h d0 t (sx, sy)"
    and "\<And>a b. a < w \<Longrightarrow> b < h \<Longrightarrow> visitedAt (fs_visited s) (b * w + a) \<Longrightarrow> matchesAt w d0 t a b \<Longrightarrow>
        (a, b) \<in> region w h d0 t (sx, sy) \<and> rgbaAt (fs_data s) ((b * w + a) * 4) = opaqueWhite"
    and "\<And>a b. a < w \<Longrightarrow> b < h \<Longrightarrow> \<not> (visitedAt (fs_visited s) (b * w + a) \<and> matchesAt w d0 t a b) \<Longrightarrow>
        rgbaAt (fs_data s) ((b * w + a) * 4) = rgbaAt d0 ((b * w + a) * 4)"
    and "visitedAt (fs_visited s) (sy * w + sx) \<or> onStack sx sy (fs_stack s)"
    and "\<And>a b a' b'. a < w \<Longrightarrow> b < h \<Longrightarrow> visitedAt (fs_visited s) (b * w + a) \<Longrightarrow>
        matchesAt w d0 t a b \<Longrightarrow> adjacent4 w h (a, b) (a', b') \<Longrightarrow>
        visitedAt (fs_visited s) (b' * w + a') \<or> onStack a' b' (fs_stack s)"
  shows "floodInv w h d0 t sx sy s"
  unfolding floodInv_def using assms by blast

lemma floodStep_inv:
  assumes inv: "floodInv w h d0 t sx sy s" and ne: "fs_stack s \<noteq> []"
    and d0: "length d0 = w * h * 4"
  shows "floodInv w h d0 t sx sy (floodStep w h t s)"
proof -
  let ?R = "region w h d0 t (sx, sy)"
  let ?v = "fs_visited s"
  let ?d = "fs_data s"
  have L: "length ?d = w * h * 4" "length ?v = w * h"
    using inv by (simp_all add: floodInv_def)
  have OK: "stackOK w h (fs_stack s)"
    using inv by (simp add: floodInv_def)
  have I3: "\<And>a b. onStack a b (fs_stack s) \<Longrightarrow> matchesAt w d0 t a b \<Longrightarrow> (a, b) \<in> ?R"
    using inv unfolding floodInv_def by blast
  have I4: "\<And>a b. a < w \<Longrightarrow> b < h \<Longrightarrow> visitedAt ?v (b * w + a) \<Longrightarrow> matchesAt w d0 t a b \<Longrightarrow>
        (a, b) \<in> ?R \<and> rgbaAt ?d ((b * w + a) * 4) = opaqueWhite"
    using inv unfolding floodInv_def by blast
  have I5: "\<And>a b. a < w \<Longrightarrow> b < h \<Longrightarrow> \<not> (visitedAt ?v (b * w + a) \<and> matchesAt w d0 t a b) \<Longrightarrow>
        rgbaAt ?d ((b * w + a) * 4) = rgbaAt d0 ((b * w + a) * 4)"
    using inv unfolding floodInv_def by blast
  have I6: "visitedAt ?v (sy * w + sx) \<or> onStack sx sy (fs_stack s)"
    using inv unfolding floodInv_def by blast
  have I7: "\<And>a b a' b'. a < w \<Longrightarrow> b < h \<Longrightarrow> visitedAt ?v (b * w + a) \<Longrightarrow>
        matchesAt w d0 t a b \<Longrightarrow> adjacent4 w h (a, b) (a', b') \<Longrightarrow>
        visitedAt ?v (b' * w + a') \<or> onStack a' b' (fs_stack s)"
    using inv unfolding floodInv_def by blast
  obtain y x rest where stk: "fs_stack s = y # x # rest"
    and xy: "x < w" "y < h" and OKrest: "stackOK w h rest"
  proof (cases "fs_stack s")
    case Nil
    with ne show ?thesis by simp
  next
    case (Cons y ys)
    then show ?thesis using OK that by (cases ys) simp_all
  qed
  let ?i = "y * w + x"
  define v' where "v' = ?v[?i := True]"
  have ib: "?i < w * h" using xy by (rule idx_bound)
  have ib4: "?i * 4 + 3 < w * h * 4" using ib by simp
  have mono: "\<And>j. visitedAt ?v j \<Longrightarrow> visitedAt v' j"
    by (simp add: v'_def visitedAt_update)
  have visxy: "visitedAt v' ?i"
    using ib L by (simp add: v'_def visitedAt_update)
  have vis': "\<And>a b. a < w \<Longrightarrow> visitedAt v' (b * w + a) \<longleftrightarrow> visitedAt ?v (b * w + a) \<or> (a = x \<and> b = y)"
    using ib L xy by (auto simp: v'_def visitedAt_update idx_inj)
  have pop: "\<And>a b. onStack a b (fs_stack s) \<longleftrightarrow> (a = x \<and> b = y) \<or> onStack a b rest"
    by (auto simp: stk)
  have Lv': "length v' = w * h" by (simp add: v'_def L)
  show ?thesis
  proof (cases "visitedAt ?v ?i")
    case True
    have step: "floodStep w h t s = s\<lparr>fs_stack := rest\<rparr>"
      using stk True by (rule floodStep_visited)
    show ?thesis
      unfolding step
    proof (rule floodInvI)
      show "visitedAt (fs_visited (s\<lparr>fs_stack := rest\<rparr>)) (sy * w + sx)
          \<or> onStack sx sy (fs_stack (s\<lparr>fs_stack := rest\<rparr>))"
        using I6 True by (auto simp: pop)
    next
      fix a b a' b'
      assume "a < w" "b < h" "visitedAt (fs_visited (s\<lparr>fs_stack := rest\<rparr>)) (b * w + a)"
        "matchesAt w d0 t a b" "adjacent4 w h (a, b) (a', b')"
      then have "visitedAt ?v (b' * w + a') \<or> onStack a' b' (fs_stack s)"
        using I7[of a b a' b'] by simp
      then show "visitedAt (fs_visited (s\<lparr>fs_stack := rest\<rparr>)) (b' * w + a')
          \<or> onStack a' b' (fs_stack (s\<lparr>fs_stack := rest\<rparr>))"
        using True by (auto simp: pop)
    qed (use L OKrest I3 I4 I5 in \<open>simp_all add: pop\<close>)
  next
    case unv: False
    have pix: "rgbAt ?d (?i * 4) = rgbAt d0 (?i * 4)"
    proof (rule rgbAt_cong)
      show "?i * 4 + 3 < length ?d" using ib4 L by simp
      show "length d0 = length ?d" using d0 L by simp
      show "rgbaAt ?d (?i * 4) = rgbaAt d0 (?i * 4)"
        using I5[OF xy] unv by simp
    qed
    show ?thesis
    proof (cases "matchColor t (rgbAt ?d (?i * 4))")
      case False
      have nm0: "\<not> matchesAt w d0 t x y"
        using False pix by (simp add: matchesAt_def)
      have step: "floodStep w h t s = s\<lparr>fs_visited := v', fs_stack := rest\<rparr>"
        unfolding v'_def using stk unv False by (rule floodStep_nomatch)
      show ?thesis
        unfolding step
      proof (rule floodInvI)
        fix a b
        assume "a < w" "b < h" "visitedAt (fs_visited (s\<lparr>fs_visited := v', fs_stack := rest\<rparr>)) (b * w + a)"
          "matchesAt w d0 t a b"
        then show "(a, b) \<in> ?R
          \<and> rgbaAt (fs_data (s\<lparr>fs_visited := v', fs_stack := rest\<rparr>)) ((b * w + a) * 4) = opaqueWhite"
          using I4[of a b] nm0 by (auto simp: vis')
      next
        fix a b
        assume "a < w" "b < h"
          "\<not> (visitedAt (fs_visited (s\<lparr>fs_visited := v', fs_stack := rest\<rparr>)) (b * w + a)
              \<and> matchesAt w d0 t a b)"
        then show "rgbaAt (fs_data (s\<lparr>fs_visited := v', fs_stack := rest\<rparr>)) ((b * w + a) * 4)
            = rgbaAt d0 ((b * w + a) * 4)"
          using I5[of a b] mono[of "b * w + a"] by auto
      next
        show "visitedAt (fs_visited (s\<lparr>fs_visited := v', fs_stack := rest\<rparr>)) (sy * w + sx)
          \<or> onStack sx sy (fs_stack (s\<lparr>fs_visited := v', fs_stack := rest\<rparr>))"
          using I6 mono[of "sy * w + sx"] visxy by (auto simp: pop)
      next
        fix a b a' b'
        assume A: "a < w" "b < h"
          "visitedAt (fs_visited (s\<lparr>fs_visited := v', fs_stack := rest\<rparr>)) (b * w + a)"
          "matchesAt w d0 t a b" "adjacent4 w h (a, b) (a', b')"
        then have "visitedAt ?v (b * w + a)"
          using nm0 by (auto simp: vis')
        then have "visitedAt ?v (b' * w + a') \<or> onStack a' b' (fs_stack s)"
          using I7[of a b a' b'] A by simp
        then show "visitedAt (fs_visited (s\<lparr>fs_visited := v', fs_stack := rest\<rparr>)) (b' * w + a')
          \<or> onStack a' b' (fs_stack (s\<lparr>fs_visited := v', fs_stack := rest\<rparr>))"
          using mono[of "b' * w + a'"] visxy by (auto simp: pop)
      qed (use L Lv' OKrest I3 in \<open>simp_all add: pop\<close>)
    next
      case True
      have m0: "matchesAt w d0 t x y"
        using True pix by (simp add: matchesAt_def)
      have inR: "(x, y) \<in> ?R"
        using I3[of x y] m0 by (simp add: pop)
      define d' where "d' = ?d[?i * 4 := 255, ?i * 4 + 1 := 255, ?i * 4 + 2 := 255, ?i * 4 + 3 := 255]"
      define stk' where "stk' =
        pushIf (y + 1 < h \<and> \<not> visitedAt v' ((y + 1) * w + x)) x (y + 1)
         (pushIf (0 < y \<and> \<not> visitedAt v' ((y - 1) * w + x)) x (y - 1)
           (pushIf (x + 1 < w \<and> \<not> visitedAt v' (y * w + (x + 1))) (x + 1) y
             (pushIf (0 < x \<and> \<not> visitedAt v' (y * w + (x - 1))) (x - 1) y rest)))"
      have step: "floodStep w h t s = \<lparr>fs_data = d', fs_visited = v', fs_stack = stk'\<rparr>"
        unfolding d'_def stk'_def using stk unv True v'_def by (rule floodStep_match)
      have keep: "\<And>a b. onStack a b rest \<Longrightarrow> onStack a b stk'"
        by (simp add: stk'_def)
      have white: "rgbaAt d' (?i * 4) = opaqueWhite"
        unfolding d'_def opaqueWhite_def using ib4 L by (intro rgbaAt_update_same) simp
      have other: "\<And>a b. a < w \<Longrightarrow> (a, b) \<noteq> (x, y) \<Longrightarrow>
          rgbaAt d' ((b * w + a) * 4) = rgbaAt ?d ((b * w + a) * 4)"
        unfolding d'_def using xy by (intro rgbaAt_update_other) (simp add: idx_inj)
      show ?thesis
        unfolding step
      proof (rule floodInvI)
        show "length (fs_data \<lparr>fs_data = d', fs_visited = v', fs_stack = stk'\<rparr>) = w * h * 4"
          by (simp add: d'_def L)
        show "length (fs_visited \<lparr>fs_data = d', fs_visited = v', fs_stack = stk'\<rparr>) = w * h"
          by (simp add: Lv')
        show "stackOK w h (fs_stack \<lparr>fs_data = d', fs_visited = v', fs_stack = stk'\<rparr>)"
          using xy OKrest by (auto simp: stk'_def)
      next
        fix a b
        assume A: "onStack a b (fs_stack \<lparr>fs_data = d', fs_visited = v', fs_stack = stk'\<rparr>)"
          "matchesAt w d0 t a b"
        show "(a, b) \<in> ?R"
        proof (cases "onStack a b rest")
          case True
          then show ?thesis using I3[of a b] A(2) by (simp add: pop)
        next
          case False
          then have "adjacent4 w h (x, y) (a, b)"
            using A(1) xy by (auto simp: stk'_def adjacent4_def)
          with inR show ?thesis using A(2) by (rule region.step)
        qed
      next
        fix a b
        assume A: "a < w" "b < h"
          "visitedAt (fs_visited \<lparr>fs_data = d', fs_visited = v', fs_stack = stk'\<rparr>) (b * w + a)"
          "matchesAt w d0 t a b"
        show "(a, b) \<in> ?R
          \<and> rgbaAt (fs_data \<lparr>fs_data = d', fs_visited = v', fs_stack = stk'\<rparr>) ((b * w + a) * 4) = opaqueWhite"
        proof (cases "(a, b) = (x, y)")
          case True
          then show ?thesis using inR white by simp
        next
          case False
          then have "visitedAt ?v (b * w + a)" using A by (auto simp: vis')
          then show ?thesis using I4[of a b] A other[OF A(1) False] by simp
        qed
      next
        fix a b
        assume A: "a < w" "b < h"
          "\<not> (visitedAt (fs_visited \<lparr>fs_data = d', fs_visited = v', fs_stack = stk'\<rparr>) (b * w + a)
              \<and> matchesAt w d0 t a b)"
        then have ne: "(a, b) \<noteq> (x, y)" using visxy m0 by auto
        have "\<not> (visitedAt ?v (b * w + a) \<and> matchesAt w d0 t a b)"
          using A mono[of "b * w + a"] by auto
        then show "rgbaAt (fs_data \<lparr>fs_data = d', fs_visited = v', fs_stack = stk'\<rparr>) ((b * w + a) * 4)
            = rgbaAt d0 ((b * w + a) * 4)"
          using I5[of a b] A(1,2) other[OF A(1) ne] by simp
      next
        show "visitedAt (fs_visited \<lparr>fs_data = d', fs_visited = v', fs_stack = stk'\<rparr>) (sy * w + sx)
          \<or> onStack sx sy (fs_stack \<lparr>fs_data = d', fs_visited = v', fs_stack = stk'\<rparr>)"
          using I6 mono[of "sy * w + sx"] visxy keep[of sx sy] by (auto simp: pop)
      next
        fix a b a' b'
        assume A: "a < w" "b < h"
          "visitedAt (fs_visited \<lparr>fs_data = d', fs_visited = v', fs_stack = stk'\<rparr>) (b * w + a)"
          "matchesAt w d0 t a b" "adjacent4 w h (a, b) (a', b')"
        show "visitedAt (fs_visited \<lparr>fs_data = d', fs_visited = v', fs_stack = stk'\<rparr>) (b' * w + a')
          \<or> onStack a' b' (fs_stack \<lparr>fs_data = d', fs_visited = v', fs_stack = stk'\<rparr>)"
        proof (cases "(a, b) = (x, y)")
          case True
          then have "adjacent4 w h (x, y) (a', b')" using A(5) by simp
          then show ?thesis
            by (auto simp: adjacent4_def stk'_def)
        next
          case False
          then have "visitedAt ?v (b * w + a)" using A by (auto simp: vis')
          then have "visitedAt ?v (b' * w + a') \<or> onStack a' b' (fs_stack s)"
            using I7[of a b a' b'] A by simp
          then show ?thesis
            using mono[of "b' * w + a'"] visxy keep[of a' b'] by (auto simp: pop)
        qed
      qed
    qed
  qed
qed

lemma floodStep_empty: "fs_stack s = [] \<Longrightarrow> floodStep w h t s = s"
  by (simp add: floodStep_def)

lemma floodStep_funpow_inv:
  assumes "floodInv w h d0 t sx sy s" and "length d0 = w * h * 4"
  shows "floodInv w h d0 t sx sy ((floodStep w h t ^^ n) s)"
proof (induction n)
  case 0
  then show ?case using assms by simp
next
  case (Suc n)
  show ?case
  proof (cases "fs_stack ((floodStep w h t ^^ n) s) = []")
    case True
    then show ?thesis using Suc by (simp add: floodStep_empty)
  next
    case False
    then show ?thesis using floodStep_inv[OF Suc False assms(2)] by simp
  qed
qed

lemma visitedAt_replicate: "\<not> visitedAt (replicate n False) j"
  by (simp add: visitedAt_def)

lemma floodInv_initial:
  assumes "sx < w" "sy < h" "length d0 = w * h * 4"
  shows "floodInv w h d0 t sx sy
           \<lparr>fs_data = d0, fs_visited = replicate (w * h) False, fs_stack = [sy, sx]\<rparr>"
  by (rule floodInvI) (use assms in \<open>auto simp: visitedAt_replicate intro: region.seed\<close>)

lemma rgbAt_Some:
  "p + 3 < length d \<Longrightarrow> \<exists>r g b. rgbAt d p = (Some r, Some g, Some b)"
  by (simp add: rgbAt_def byteAt_def)

lemma matchColor_self: "matchColor (Some r, Some g, Some b) (Some r, Some g, Some b)"
  by (simp add: matchColor_Some)

lemma floodInv_final:
  assumes inv: "floodInv w h d0 (rgbAt d0 ((sy * w + sx) * 4)) sx sy s"
    and fin: "fs_stack s = []" and seed: "sx < w" "sy < h" and d0: "length d0 = w * h * 4"
    and ab: "a < w" "b < h"
  shows "rgbaAt (fs_data s) ((b * w + a) * 4) =
           (if (a, b) \<in> region w h d0 (rgbAt d0 ((sy * w + sx) * 4)) (sx, sy)
            then opaqueWhite else rgbaAt d0 ((b * w + a) * 4))"
proof -
  let ?t = "rgbAt d0 ((sy * w + sx) * 4)"
  let ?R = "region w h d0 ?t (sx, sy)"
  let ?v = "fs_visited s"
  have I4: "\<And>a b. a < w \<Longrightarrow> b < h \<Longrightarrow> visitedAt ?v (b * w + a) \<Longrightarrow> matchesAt w d0 ?t a b \<Longrightarrow>
        (a, b) \<in> ?R \<and> rgbaAt (fs_data s) ((b * w + a) * 4) = opaqueWhite"
    using inv unfolding floodInv_def by blast
  have I5: "\<And>a b. a < w \<Longrightarrow> b < h \<Longrightarrow> \<not> (visitedAt ?v (b * w + a) \<and> matchesAt w d0 ?t a b) \<Longrightarrow>
        rgbaAt (fs_data s) ((b * w + a) * 4) = rgbaAt d0 ((b * w + a) * 4)"
    using inv unfolding floodInv_def by blast
  have I6: "visitedAt ?v (sy * w + sx)"
    using inv fin unfolding floodInv_def by simp
  have I7: "\<And>a b a' b'. a < w \<Longrightarrow> b < h \<Longrightarrow> visitedAt ?v (b * w + a) \<Longrightarrow>
        matchesAt w d0 ?t a b \<Longrightarrow> adjacent4 w h (a, b) (a', b') \<Longrightarrow> visitedAt ?v (b' * w + a')"
    using inv fin unfolding floodInv_def by simp
  have "(sy * w + sx) * 4 + 3 < length d0"
    using idx_bound[OF seed] d0 by simp
  then obtain r g bl where "?t = (Some r, Some g, Some bl)"
    using rgbAt_Some by blast
  then have mseed: "matchesAt w d0 ?t sx sy"
    by (simp add: matchesAt_def tolerance_def)
  have closed: "p \<in> ?R \<Longrightarrow> fst p < w \<and> snd p < h \<and> visitedAt ?v (snd p * w + fst p)
      \<and> matchesAt w d0 ?t (fst p) (snd p)" for p
  proof (induction rule: region.induct)
    case seed
    then show ?case using assms(3,4) I6 mseed by simp
  next
    case (step p x' y')
    obtain x y where p: "p = (x, y)" by (cases p)
    have "visitedAt ?v (y' * w + x')"
      using I7[of x y x' y'] step p by simp
    moreover have "x' < w" "y' < h"
      using step(2) p by (simp_all add: adjacent4_def)
    ultimately show ?case using step(3) by simp
  qed
  show ?thesis
  proof (cases "(a, b) \<in> ?R")
    case True
    then show ?thesis using closed[of "(a, b)"] I4[OF ab] by simp
  next
    case False
    then have "\<not> (visitedAt ?v (b * w + a) \<and> matchesAt w d0 ?t a b)"
      using I4[OF ab] by blast
    then show ?thesis using I5[OF ab] False by simp
  qed
qed

text \<open>
  C1. For a well-formed buffer and a seed inside it whose colour is neither
  near-white nor near-black, removeColorAt returns, keeps the dimensions, and the
  resulting pixel is opaque white exactly on the 4-connected region reachable from
  the seed through matching pixels; every other pixel keeps its bytes.
\<close>

theorem color_wand_fills_region:
  assumes cv: "canvas st = Some c"
    and wf: "length (data c) = width c * height c * 4"
    and inx: "0 \<le> \<lfloor>startX\<rfloor>" "\<lfloor>startX\<rfloor> < int (width c)"
    and iny: "0 \<le> \<lfloor>startY\<rfloor>" "\<lfloor>startY\<rfloor> < int (height c)"
    and nw: "\<not> nearWhite (seedColor c startX startY)"
    and nb: "\<not> nearBlack (seedColor c startX startY)"
  shows "\<exists>st' c'. removeColorAt startX startY st = Some st' \<and> canvas st' = Some c'
           \<and> width c' = width c \<and> height c' = height c
           \<and> length (data c') = length (data c)
           \<and> (\<forall>x y. x < width c \<longrightarrow> y < height c \<longrightarrow>
                pixelAt c' x y =
                  (if (x, y) \<in> fillRegion c startX startY then opaqueWhite else pixelAt c x y))"
proof -
  let ?w = "width c" and ?h = "height c" and ?d = "data c"
  let ?sx = "nat \<lfloor>startX\<rfloor>" and ?sy = "nat \<lfloor>startY\<rfloor>"
  let ?t = "rgbAt ?d ((?sy * ?w + ?sx) * 4)"
  let ?s0 = "\<lparr>fs_data = ?d, fs_visited = replicate (?w * ?h) False, fs_stack = [?sy, ?sx]\<rparr>"
  have seed: "?sx < ?w" "?sy < ?h" using inx iny by (simp_all add: nat_less_iff del: zero_le_floor)
  have len: "length (fs_data ?s0) \<le> 4 * length (fs_visited ?s0)" using wf by simp
  obtain n where n: "fs_stack ((floodStep ?w ?h ?t ^^ n) ?s0) = []"
      "floodLoop ?w ?h ?t ?s0 = Some ((floodStep ?w ?h ?t ^^ n) ?s0)"
    using floodLoop_terminates[OF len, of ?w ?h ?t] by blast
  define s where "s = (floodStep ?w ?h ?t ^^ n) ?s0"
  have inv: "floodInv ?w ?h ?d ?t ?sx ?sy s"
    unfolding s_def by (intro floodStep_funpow_inv floodInv_initial seed wf)
  have lens: "length (fs_data s) = length ?d"
    using inv wf by (simp add: floodInv_def)
  have pix: "rgbaAt (fs_data s) ((y * ?w + x) * 4) =
      (if (x, y) \<in> region ?w ?h ?d ?t (?sx, ?sy) then opaqueWhite else rgbaAt ?d ((y * ?w + x) * 4))"
    if "x < ?w" "y < ?h" for x y
    using floodInv_final[OF inv _ seed wf that] n(1) by (simp add: s_def)
  define c' where "c' = c\<lparr>data := fs_data s\<rparr>"
  have res: "removeColorAt startX startY st = Some (saveState (st\<lparr>canvas := Some c'\<rparr>))"
    using cv inx iny nw nb n(2)
    by (simp add: removeColorAt_def Let_def seedColor_def s_def c'_def not_le)
  have "canvas (saveState (st\<lparr>canvas := Some c'\<rparr>)) = Some c'"
    by (simp add: saveState_def Let_def)
  moreover have "\<forall>x y. x < width c \<longrightarrow> y < height c \<longrightarrow>
      pixelAt c' x y = (if (x, y) \<in> fillRegion c startX startY then opaqueWhite else pixelAt c x y)"
    using pix by (simp add: pixelAt_def fillRegion_def seedColor_def c'_def)
  ultimately show ?thesis
    using res lens by (simp add: c'_def)
qed

theorem color_wand_fills_region_witness:
  "canvas (initialEditor (Some stripe4)) = Some stripe4
   \<and> length (data stripe4) = width stripe4 * height stripe4 * 4
   \<and> 0 \<le> \<lfloor>1 / 2 :: real\<rfloor> \<and> \<lfloor>1 / 2 :: real\<rfloor> < int (width stripe4)
   \<and> 0 \<le> \<lfloor>3 / 10 :: real\<rfloor> \<and> \<lfloor>3 / 10 :: real\<rfloor> < int (height stripe4)
   \<and> \<not> nearWhite (seedColor stripe4 (1 / 2) (3 / 10))
   \<and> \<not> nearBlack (seedColor stripe4 (1 / 2) (3 / 10))
   \<and> (\<exists>st' c'. removeColorAt (1 / 2) (3 / 10) (initialEditor (Some stripe4)) = Some st'
         \<and> canvas st' = Some c'
         \<and> pixelAt c' 0 0 = opaqueWhite \<and> pixelAt c' 1 0 = opaqueWhite
         \<and> pixelAt c' 2 0 = (0, 0, 0, 255) \<and> pixelAt c' 3 0 = (120, 120, 200, 255))"
proof -
  let ?E = "initialEditor (Some stripe4)"
  have t: "seedColor stripe4 (1 / 2) (3 / 10) = (Some 120, Some 120, Some 200)"
    by (simp add: seedColor_def stripe4_def rgbAt_def byteAt_def)
  have h1: "canvas ?E = Some stripe4" by (simp add: initialEditor_def)
  have h2: "length (data stripe4) = width stripe4 * height stripe4 * 4" by (simp add: stripe4_def)
  have h3: "0 \<le> \<lfloor>1 / 2 :: real\<rfloor>" "\<lfloor>1 / 2 :: real\<rfloor> < int (width stripe4)"
    by (simp_all add: stripe4_def)
  have h4: "0 \<le> \<lfloor>3 / 10 :: real\<rfloor>" "\<lfloor>3 / 10 :: real\<rfloor> < int (height stripe4)"
    by (simp_all add: stripe4_def)
  have h5: "\<not> nearWhite (seedColor stripe4 (1 / 2) (3 / 10))"
    by (simp add: t nearWhite_def jsGreater_def)
  have h6: "\<not> nearBlack (seedColor stripe4 (1 / 2) (3 / 10))"
    by (simp add: t nearBlack_def jsLess_def)
  have F: "fillRegion stripe4 (1 / 2) (3 / 10)
      = region 4 1 (data stripe4) (Some 120, Some 120, Some 200) (0, 0)"
    by (simp add: fillRegion_def t) (simp add: stripe4_def)
  have m1: "matchesAt 4 (data stripe4) (Some 120, Some 120, Some 200) 1 0"
    by (simp add: matchesAt_def stripe4_def rgbAt_def byteAt_def matchColor_Some)
  have m2: "\<not> matchesAt 4 (data stripe4) (Some 120, Some 120, Some 200) 2 0"
    by (simp add: matchesAt_def stripe4_def rgbAt_def byteAt_def matchColor_Some)
  have r0: "(0, 0) \<in> fillRegion stripe4 (1 / 2) (3 / 10)"
    unfolding F by (rule region.seed)
  have r1: "(1, 0) \<in> fillRegion stripe4 (1 / 2) (3 / 10)"
    unfolding F by (rule region.step[OF region.seed _ m1]) (simp add: adjacent4_def)
  have sub: "p \<in> region 4 1 (data stripe4) (Some 120, Some 120, Some 200) (0, 0)
      \<Longrightarrow> p = (0, 0) \<or> p = (1, 0)" for p
  proof (induction rule: region.induct)
    case seed
    then show ?case by simp
  next
    case (step p x' y')
    then show ?case using m2 by (auto simp: adjacent4_def numeral_2_eq_2)
  qed
  have r2: "(2, 0) \<notin> fillRegion stripe4 (1 / 2) (3 / 10)"
    unfolding F using sub[of "(2, 0)"] by auto
  have r3: "(3, 0) \<notin> fillRegion stripe4 (1 / 2) (3 / 10)"
    unfolding F using sub[of "(3, 0)"] by auto
  obtain st' c' where R: "removeColorAt (1 / 2) (3 / 10) ?E = Some st'" "canvas st' = Some c'"
    and P: "\<And>x y. x < width stripe4 \<Longrightarrow> y < height stripe4 \<Longrightarrow>
          pixelAt c' x y = (if (x, y) \<in> fillRegion stripe4 (1 / 2) (3 / 10)
                            then opaqueWhite else pixelAt stripe4 x y)"
    using color_wand_fills_region[OF h1 h2 h3 h4 h5 h6] by blast
  have "pixelAt c' 0 0 = opaqueWhite" using P[of 0 0] r0 by (simp add: stripe4_def)
  moreover have "pixelAt c' 1 0 = opaqueWhite" using P[of 1 0] r1 by (simp add: stripe4_def)
  moreover have "pixelAt c' 2 0 = (0, 0, 0, 255)"
    using P[of 2 0] r2 by (simp add: stripe4_def pixelAt_def rgbaAt_def)
  moreover have "pixelAt c' 3 0 = (120, 120, 200, 255)"
    using P[of 3 0] r3 by (simp add: stripe4_def pixelAt_def rgbaAt_def)
  ultimately show ?thesis
    using h1 h2 h3 h4 h5 h6 R by blast
qed

text \<open>
  C10. The traversal loop ends after at most \<open>4 * width * height + 1\<close> iterations
  (each pops one pair), from any seed and any target colour, on a buffer of
  \<open>width * height\<close> pixels.
\<close>

theorem flood_loop_terminates:
  assumes "length d = w * h * 4"
  shows "\<exists>n \<le> 4 * (w * h) + 1.
           fs_stack ((floodStep w h t ^^ n)
              \<lparr>fs_data = d, fs_visited = replicate (w * h) False, fs_stack = [sy, sx]\<rparr>) = []
         \<and> floodLoop w h t \<lparr>fs_data = d, fs_visited = replicate (w * h) False, fs_stack = [sy, sx]\<rparr>
             = Some ((floodStep w h t ^^ n)
                 \<lparr>fs_data = d, fs_visited = replicate (w * h) False, fs_stack = [sy, sx]\<rparr>)"
proof -
  let ?s0 = "\<lparr>fs_data = d, fs_visited = replicate (w * h) False, fs_stack = [sy, sx]\<rparr>"
  have len: "length (fs_data ?s0) \<le> 4 * length (fs_visited ?s0)" using assms by simp
  have pot: "floodPotential ?s0 = 4 * (w * h) + 1"
    by (simp add: floodPotential_def unvisited_replicate)
  show ?thesis
    using floodLoop_terminates[OF len, of w h t] unfolding pot .
qed

theorem flood_loop_terminates_witness:
  "length (data stripe4) = 4 * 1 * 4
   \<and> (\<exists>n \<le> 4 * (4 * 1) + 1.
        fs_stack ((floodStep 4 1 (Some 120, Some 120, Some 200) ^^ n)
           \<lparr>fs_data = data stripe4, fs_visited = replicate (4 * 1) False, fs_stack = [0, 0]\<rparr>) = []
      \<and> floodLoop 4 1 (Some 120, Some 120, Some 200)
           \<lparr>fs_data = data stripe4, fs_visited = replicate (4 * 1) False, fs_stack = [0, 0]\<rparr>
          = Some ((floodStep 4 1 (Some 120, Some 120, Some 200) ^^ n)
              \<lparr>fs_data = data stripe4, fs_visited = replicate (4 * 1) False, fs_stack = [0, 0]\<rparr>))"
proof -
  have h: "length (data stripe4) = 4 * 1 * 4" by (simp add: stripe4_def)
  show ?thesis
    using h flood_loop_terminates[OF h, of "(Some 120, Some 120, Some 200)" 0 0] by blast
qed

text \<open>
  C6. On a near-white or near-black seed removeColorAt returns the editor state
  as it was: same buffer, same history, no error.
\<close>

theorem color_wand_refuses_background:
  assumes "canvas st = Some c"
    and "nearWhite (seedColor c startX startY) \<or> nearBlack (seedColor c startX startY)"
  shows "removeColorAt startX startY st = Some st"
  using assms by (auto simp: removeColorAt_def Let_def seedColor_def)

theorem color_wand_refuses_background_witness:
  "canvas (initialEditor (Some (px1 [250, 250, 250, 255]))) = Some (px1 [250, 250, 250, 255])
   \<and> nearWhite (seedColor (px1 [250, 250, 250, 255]) (1 / 2) (1 / 2))
   \<and> removeColorAt (1 / 2) (1 / 2) (initialEditor (Some (px1 [250, 250, 250, 255])))
       = Some (initialEditor (Some (px1 [250, 250, 250, 255])))
   \<and> canvas (initialEditor (Some (px1 [10, 10, 10, 255]))) = Some (px1 [10, 10, 10, 255])
   \<and> nearBlack (seedColor (px1 [10, 10, 10, 255]) (1 / 2) (1 / 2))
   \<and> removeColorAt (1 / 2) (1 / 2) (initialEditor (Some (px1 [10, 10, 10, 255])))
       = Some (initialEditor (Some (px1 [10, 10, 10, 255])))"
proof -
  have w1: "canvas (initialEditor (Some (px1 [250, 250, 250, 255]))) = Some (px1 [250, 250, 250, 255])"
    and b1: "canvas (initialEditor (Some (px1 [10, 10, 10, 255]))) = Some (px1 [10, 10, 10, 255])"
    by (simp_all add: initialEditor_def)
  have w2: "nearWhite (seedColor (px1 [250, 250, 250, 255]) (1 / 2) (1 / 2))"
    by (simp add: seedColor_def px1_def rgbAt_def byteAt_def nearWhite_def jsGreater_def)
  have b2: "nearBlack (seedColor (px1 [10, 10, 10, 255]) (1 / 2) (1 / 2))"
    by (simp add: seedColor_def px1_def rgbAt_def byteAt_def nearBlack_def jsLess_def)
  show ?thesis
    using w1 w2 b1 b2
      color_wand_refuses_background [OF w1, of "1 / 2" "1 / 2"]
      color_wand_refuses_background [OF b1, of "1 / 2" "1 / 2"]
    by blast
qed

section \<open>Properties of the background inference\<close>
















section \<open>Properties of the handlers\<close>

lemma viewOnlyI:
  "st' = st\<lparr>scale := sc, panOffset := po, isPanning := ip, isDrawing := idr, lastPanPos := lp,
            lastTouchDistance := ld\<rparr> \<Longrightarrow> viewOnly st st'"
  by (simp add: viewOnly_def)

lemma viewOnly_handleWheel: "viewOnly st (handleWheel container e st)"
  by (simp add: viewOnly_def handleWheel_def Let_def split: option.splits)

lemma viewOnly_resetView: "viewOnly st (resetView container st)"
  by (simp add: viewOnly_def resetView_def Let_def split: option.splits prod.splits)

lemma viewOnly_handleKeyDown:
  "key_code e \<noteq> ''Space'' \<Longrightarrow> viewOnly st (handleKeyDown container e st)"
  using viewOnly_resetView[of st container]
  by (simp add: handleKeyDown_def Let_def) (simp add: viewOnly_def)

lemma viewOnly_buttons: "viewOnly st (zoomInButton st) \<and> viewOnly st (zoomOutButton st)"
  by (simp add: viewOnly_def zoomInButton_def zoomOutButton_def)

lemma viewOnly_handlePointerDown:
  "twoTouches e \<or> tool st = Hand \<or> middleButton e \<Longrightarrow>
   \<exists>st'. handlePointerDown B rect e st = Some (Inr st') \<and> viewOnly st st'"
  by (auto simp: handlePointerDown_def viewOnly_def)

lemma viewOnly_handlePointerMove:
  "(twoTouches e \<and> lastTouchDistance st \<noteq> None) \<or> isPanning st \<Longrightarrow>
   viewOnly st (handlePointerMove B rect e st)"
  by (auto simp: handlePointerMove_def viewOnly_def Let_def)

lemma viewOnly_handlePointerUp:
  "isPanning st \<Longrightarrow> \<exists>st'. handlePointerUp B st = Inr st' \<and> viewOnly st st'"
  by (simp add: handlePointerUp_def viewOnly_def Let_def)

text \<open>
  C9. Every pan and zoom operation (wheel scroll and modifier+wheel zoom, the
  keyboard zoom keys, the zoom buttons and the view reset, a press with two
  fingers, the hand tool or the middle button, a move while panning or pinching,
  and the release that ends a pan) leaves the pixel buffer, the history and its
  index unchanged; it changes only \<open>scale\<close>, \<open>panOffset\<close> and the bookkeeping of
  the pointer gesture.
\<close>

theorem pan_zoom_changes_view_only:
  "viewOnly st (handleWheel wcontainer we st)
   \<and> (key_code ke \<noteq> ''Space'' \<longrightarrow> viewOnly st (handleKeyDown kcontainer ke st))
   \<and> viewOnly st (zoomInButton st) \<and> viewOnly st (zoomOutButton st)
   \<and> viewOnly st (resetView kcontainer st)
   \<and> (twoTouches e \<or> tool st = Hand \<or> middleButton e \<longrightarrow>
        (\<exists>st'. handlePointerDown B rect e st = Some (Inr st') \<and> viewOnly st st'))
   \<and> ((twoTouches e \<and> lastTouchDistance st \<noteq> None) \<or> isPanning st \<longrightarrow>
        viewOnly st (handlePointerMove B rect e st))
   \<and> (isPanning st \<longrightarrow> (\<exists>st'. handlePointerUp B st = Inr st' \<and> viewOnly st st'))"
  using viewOnly_handleWheel viewOnly_handleKeyDown viewOnly_buttons viewOnly_resetView
    viewOnly_handlePointerDown viewOnly_handlePointerMove viewOnly_handlePointerUp
  by blast

theorem pan_zoom_changes_view_only_witness:
  "viewOnly (initialEditor (Some white44)) (handleWheel None (plainWheel 0 10) (initialEditor (Some white44)))
   \<and> key_code (zoomKey ''+'') \<noteq> ''Space''
   \<and> viewOnly (initialEditor (Some white44)) (handleKeyDown None (zoomKey ''+'') (initialEditor (Some white44)))
   \<and> viewOnly (initialEditor (Some white44)) (zoomInButton (initialEditor (Some white44)))
   \<and> viewOnly (initialEditor (Some white44)) (zoomOutButton (initialEditor (Some white44)))
   \<and> viewOnly (initialEditor (Some white44)) (resetView None (initialEditor (Some white44)))
   \<and> tool ((initialEditor (Some white44))\<lparr>tool := Hand\<rparr>) = Hand
   \<and> (\<exists>st'. handlePointerDown idleBrowser (rectAt 0 0 4 4) (MouseEvent 1 1 0)
               ((initialEditor (Some white44))\<lparr>tool := Hand\<rparr>) = Some (Inr st')
           \<and> viewOnly ((initialEditor (Some white44))\<lparr>tool := Hand\<rparr>) st')
   \<and> isPanning ((initialEditor (Some white44))\<lparr>isPanning := True\<rparr>)
   \<and> viewOnly ((initialEditor (Some white44))\<lparr>isPanning := True\<rparr>)
        (handlePointerMove idleBrowser (rectAt 0 0 4 4) (MouseEvent 2 3 0)
           ((initialEditor (Some white44))\<lparr>isPanning := True\<rparr>))
   \<and> (\<exists>st'. handlePointerUp idleBrowser ((initialEditor (Some white44))\<lparr>isPanning := True\<rparr>) = Inr st'
           \<and> viewOnly ((initialEditor (Some white44))\<lparr>isPanning := True\<rparr>) st')"
proof -
  let ?E = "initialEditor (Some white44)"
  have k: "key_code (zoomKey ''+'') \<noteq> ''Space''" by (simp add: zoomKey_def)
  have t: "tool (?E\<lparr>tool := Hand\<rparr>) = Hand" by simp
  have p: "isPanning (?E\<lparr>isPanning := True\<rparr>)" by simp
  show ?thesis
    using k t p
      pan_zoom_changes_view_only [of ?E None "plainWheel 0 10" "zoomKey ''+''" None
        "MouseEvent 1 1 0" idleBrowser "rectAt 0 0 4 4"]
      pan_zoom_changes_view_only [of "?E\<lparr>tool := Hand\<rparr>" None "plainWheel 0 10" "zoomKey ''+''" None
        "MouseEvent 1 1 0" idleBrowser "rectAt 0 0 4 4"]
      pan_zoom_changes_view_only [of "?E\<lparr>isPanning := True\<rparr>" None "plainWheel 0 10" "zoomKey ''+''" None
        "MouseEvent 2 3 0" idleBrowser "rectAt 0 0 4 4"]
    by blast
qed

text \<open>
  C8. In rotated display mode, for a canvas rectangle of positive width and
  height, getMousePos returns
  \<open>x = (clientY - rect.top) * (canvas.width / rect.height)\<close> and
  \<open>y = (rect.right - clientX) * (canvas.height / rect.width)\<close>, for a mouse event
  and for the first touch of a touch event.
\<close>

theorem getMousePos_rotated:
  assumes "canvas st = Some c" and "isRotated st"
    and "0 < rect_width rect" and "0 < rect_height rect"
  shows "getMousePos st rect e =
           \<lparr>pos_x = (firstClientY e - rect_top rect) * (real (width c) / rect_height rect),
            pos_y = (rect_right rect - firstClientX e) * (real (height c) / rect_width rect)\<rparr>"
  using assms by (simp add: getMousePos_def Let_def)

theorem getMousePos_rotated_witness:
  "canvas ((initialEditor (Some white44))\<lparr>isRotated := True\<rparr>) = Some white44
   \<and> isRotated ((initialEditor (Some white44))\<lparr>isRotated := True\<rparr>)
   \<and> 0 < rect_width (rectAt 10 20 8 8) \<and> 0 < rect_height (rectAt 10 20 8 8)
   \<and> getMousePos ((initialEditor (Some white44))\<lparr>isRotated := True\<rparr>) (rectAt 10 20 8 8)
        (MouseEvent 12 26 0) = \<lparr>pos_x = 3, pos_y = 3\<rparr>"
proof -
  let ?E = "(initialEditor (Some white44))\<lparr>isRotated := True\<rparr>"
  have h1: "canvas ?E = Some white44" by (simp add: initialEditor_def)
  have h2: "isRotated ?E" by simp
  have h3: "0 < rect_width (rectAt 10 20 8 8)" and h4: "0 < rect_height (rectAt 10 20 8 8)"
    by (simp_all add: rectAt_def)
  show ?thesis
    using h1 h2 h3 h4 getMousePos_rotated [OF h1 h2 h3 h4, of "MouseEvent 12 26 0"]
    by (simp add: firstClientX_def firstClientY_def rectAt_def white44_def)
qed

text \<open>
  C7 as stated fails: a pointer to the left of the canvas converts to a negative
  buffer coordinate, which is not clamped.  The colour wand, called with it, does
  nothing, whereas a seed clamped to the buffer's first column would have filled
  the buffer.
\<close>

theorem pointer_outside_canvas_not_clamped:
  "pos_x (getMousePos (initialEditor (Some blue22)) (rectAt 10 10 2 2) (MouseEvent (19 / 2) (21 / 2) 0))
     = - (1 / 2)
   \<and> pos_y (getMousePos (initialEditor (Some blue22)) (rectAt 10 10 2 2) (MouseEvent (19 / 2) (21 / 2) 0))
     = 1 / 2
   \<and> map_option canvas (removeColorAt (- (1 / 2)) (1 / 2) (initialEditor (Some blue22)))
     = Some (Some blue22)
   \<and> map_option canvas (removeColorAt 0 (1 / 2) (initialEditor (Some blue22)))
     = Some (Some \<lparr>width = 2, height = 2, data = replicate 16 255\<rparr>)"
  by code_simp

text \<open>
  C7, as the code has it.  A colour-wand seed whose floored coordinates lie
  outside the buffer is not clamped: removeColorAt returns the editor state as it
  was, leaving buffer and history unchanged and raising nothing.
\<close>

theorem color_wand_ignores_outside_seed:
  assumes "canvas st = Some c"
    and "\<lfloor>startX\<rfloor> < 0 \<or> int (width c) \<le> \<lfloor>startX\<rfloor> \<or> \<lfloor>startY\<rfloor> < 0 \<or> int (height c) \<le> \<lfloor>startY\<rfloor>"
  shows "removeColorAt startX startY st = Some st"
  using assms by (auto simp: removeColorAt_def Let_def)

theorem color_wand_ignores_outside_seed_witness:
  "canvas (initialEditor (Some blue22)) = Some blue22
   \<and> \<lfloor>- (1 / 2) :: real\<rfloor> < 0
   \<and> removeColorAt (- (1 / 2)) (1 / 2) (initialEditor (Some blue22)) = Some (initialEditor (Some blue22))"
proof -
  have h1: "canvas (initialEditor (Some blue22)) = Some blue22" by (simp add: initialEditor_def)
  have h2: "\<lfloor>- (1 / 2) :: real\<rfloor> < 0" by simp
  show ?thesis
    using h1 h2 color_wand_ignores_outside_seed [OF h1, of "- (1 / 2)" "1 / 2"] by blast
qed

text \<open>
  C3 does not hold of the code.  A brush gesture on a loaded 4 by 4 image goes
  down at (1,1), moves to (2,2) and to (3,1), and is released: two strokes have
  been painted, but the start and end positions have the same \<open>y\<close>, the height of
  their rectangle is 0, and handlePointerUp returns before the brush branch: the
  history and its index are those before the gesture.
\<close>

theorem brush_release_on_flat_span_pushes_nothing:
  "\<exists>st1 st4.
     handlePointerDown B (rectAt 0 0 4 4) (MouseEvent 1 1 0)
        (loadImage white44 ((initialEditor (Some white44))\<lparr>tool := Brush\<rparr>)) = Some (Inr st1)
   \<and> handlePointerUp B
        (handlePointerMove B (rectAt 0 0 4 4) (MouseEvent 3 1 0)
          (handlePointerMove B (rectAt 0 0 4 4) (MouseEvent 2 2 0) st1)) = Inr st4
   \<and> ctxPath st4 = [\<lparr>pos_x = 1, pos_y = 1\<rparr>, \<lparr>pos_x = 2, pos_y = 2\<rparr>, \<lparr>pos_x = 3, pos_y = 1\<rparr>]
   \<and> canvas st4 =
        Some (white44\<lparr>data := strokePath B (CssText ''#FFFFFF'') 20 ''round'' ''round''
                [\<lparr>pos_x = 1, pos_y = 1\<rparr>, \<lparr>pos_x = 2, pos_y = 2\<rparr>, \<lparr>pos_x = 3, pos_y = 1\<rparr>]
                (white44\<lparr>data := strokePath B (CssText ''#FFFFFF'') 20 ''round'' ''round''
                   [\<lparr>pos_x = 1, pos_y = 1\<rparr>, \<lparr>pos_x = 2, pos_y = 2\<rparr>] white44\<rparr>)\<rparr>)
   \<and> history st4 = [white44] \<and> historyIndex st4 = 0"
  by (simp add: handlePointerDown_def handlePointerMove_def handlePointerUp_def getMousePos_def
      loadImage_def saveState_def slice0_def initialEditor_def rectAt_def white44_def
      twoTouches_def middleButton_def firstClientX_def firstClientY_def Let_def)

theorem brush_release_on_flat_span_pushes_nothing_witness:
  "\<exists>st1 st4.
     handlePointerDown idleBrowser (rectAt 0 0 4 4) (MouseEvent 1 1 0)
        (loadImage white44 ((initialEditor (Some white44))\<lparr>tool := Brush\<rparr>)) = Some (Inr st1)
   \<and> handlePointerUp idleBrowser
        (handlePointerMove idleBrowser (rectAt 0 0 4 4) (MouseEvent 3 1 0)
          (handlePointerMove idleBrowser (rectAt 0 0 4 4) (MouseEvent 2 2 0) st1)) = Inr st4
   \<and> ctxPath st4 = [\<lparr>pos_x = 1, pos_y = 1\<rparr>, \<lparr>pos_x = 2, pos_y = 2\<rparr>, \<lparr>pos_x = 3, pos_y = 1\<rparr>]
   \<and> history st4 = [white44] \<and> historyIndex st4 = 0"
  using brush_release_on_flat_span_pushes_nothing [of idleBrowser] by blast

section \<open>The snapshots pushed by the tools\<close>

text \<open>
  Every snapshot the tools push has the form of \<^const>\<open>commitPainted\<close>: the colour
  wand either leaves the state alone or commits the filled buffer, and a release
  of the pointer either leaves history and index alone or commits the buffer as
  painted.
\<close>

lemma removeColorAt_commits:
  "removeColorAt startX startY st = Some st' \<Longrightarrow> st' = st \<or> (\<exists>painted. st' = commitPainted painted st)"
  by (auto simp: removeColorAt_def commitPainted_def Let_def split: option.splits if_splits)

lemma sameDocument_fill:
  assumes "canvas st = Some c" and "canvas s = Some c" and "history s = history st"
    and "historyIndex s = historyIndex st"
  shows "\<exists>painted. sameDocument (saveState (ctxFillRect B x y w h (setFillStyle B col s)))
                      (commitPainted painted st)"
proof -
  have "sameDocument (saveState (ctxFillRect B x y w h (setFillStyle B col s)))
      (commitPainted (c\<lparr>data := fillRect B (ctxFillStyle (setFillStyle B col s)) x y w h c\<rparr>) st)"
    using assms
    by (simp add: sameDocument_def saveState_def ctxFillRect_def setFillStyle_def commitPainted_def Let_def)
  then show ?thesis ..
qed

lemma sameDocument_save:
  assumes "canvas st = Some c" and "canvas s = Some c" and "history s = history st"
    and "historyIndex s = historyIndex st"
  shows "\<exists>painted. sameDocument (saveState s) (commitPainted painted st)"
proof -
  have "sameDocument (saveState s) (commitPainted c st)"
    using assms by (simp add: sameDocument_def saveState_def commitPainted_def Let_def)
  then show ?thesis ..
qed

lemma handlePointerUp_commits:
  assumes up: "handlePointerUp B st = Inr st'"
  shows "sameDocument st' st \<or> (\<exists>painted. sameDocument st' (commitPainted painted st))"
proof -
  let ?x = "min (pos_x (startPos st)) (pos_x (currentPos st))"
  let ?y = "min (pos_y (startPos st)) (pos_y (currentPos st))"
  let ?w = "\<bar>pos_x (currentPos st) - pos_x (startPos st)\<bar>"
  let ?h = "\<bar>pos_y (currentPos st) - pos_y (startPos st)\<bar>"
  define s1 where "s1 = st\<lparr>lastTouchDistance := None, isDrawing := False\<rparr>"
  have same1: "sameDocument s1 st" by (simp add: sameDocument_def s1_def)
  show ?thesis
  proof (cases "isPanning st \<or> \<not> isDrawing st \<or> canvas st = None \<or> ?w = 0 \<or> ?h = 0")
    case True
    have "sameDocument st' st"
    proof (cases "isPanning st")
      case True
      then show ?thesis
        using up by (auto simp: handlePointerUp_def Let_def sameDocument_def)
    next
      case np: False
      show ?thesis
      proof (cases "isDrawing st")
        case False
        then show ?thesis
          using up np by (auto simp: handlePointerUp_def Let_def sameDocument_def)
      next
        case dr: True
        show ?thesis
        proof (cases "canvas st")
          case None
          then show ?thesis
            using up np dr by (auto simp: handlePointerUp_def Let_def sameDocument_def)
        next
          case (Some c)
          then have "?w = 0 \<or> ?h = 0" using True np dr by simp
          then have "st' = s1"
            using up np dr Some by (auto simp: handlePointerUp_def Let_def s1_def)
          then show ?thesis using same1 by simp
        qed
      qed
    qed
    then show ?thesis ..
  next
    case False
    then obtain c where c: "canvas st = Some c" by auto
    have f: "\<not> isPanning st" "isDrawing st" "?w \<noteq> 0" "?h \<noteq> 0" using False by auto
    have s1c: "canvas s1 = Some c" "history s1 = history st" "historyIndex s1 = historyIndex st"
      using c by (simp_all add: s1_def)
    note fill = sameDocument_fill[OF c s1c, of B ?x ?y ?w ?h]
    note save = sameDocument_save[OF c s1c]
    show ?thesis
    proof (cases "tool st")
      case Eraser
      have "st' = saveState (ctxFillRect B ?x ?y ?w ?h (setFillStyle B (CssText ''#FFFFFF'') s1))"
        using up c f Eraser by (simp add: handlePointerUp_def Let_def s1_def)
      then show ?thesis using fill by blast
    next
      case Brush
      have "st' = saveState s1"
        using up c f Brush by (simp add: handlePointerUp_def Let_def s1_def)
      then show ?thesis using save by blast
    next
      case TextBox
      have "st' = s1\<lparr>pendingTextBox := Some \<lparr>box_x = ?x, box_y = ?y, box_w = ?w, box_h = ?h\<rparr>,
                  isEnteringText := True\<rparr>"
        using up c f TextBox by (simp add: handlePointerUp_def Let_def s1_def)
      then show ?thesis by (simp add: sameDocument_def s1_def)
    next
      case RemoveText
      show ?thesis
      proof (cases "useManualColor st")
        case True
        have "st' = saveState (ctxFillRect B ?x ?y ?w ?h (setFillStyle B (manualBgColor st) s1))"
          using up c f RemoveText True by (simp add: handlePointerUp_def Let_def s1_def)
        then show ?thesis using fill by blast
      next
        case False
        have "\<exists>col. st' = saveState (ctxFillRect B ?x ?y ?w ?h (setFillStyle B col s1))"
          using up c f RemoveText False
          by (auto simp: handlePointerUp_def Let_def s1_def split: sum.splits)
        then show ?thesis using fill by blast
      qed
    next
      case Wand
      have "st' = s1" using up c f Wand by (simp add: handlePointerUp_def Let_def s1_def)
      then show ?thesis using same1 by simp
    next
      case Hand
      have "st' = s1" using up c f Hand by (simp add: handlePointerUp_def Let_def s1_def)
      then show ?thesis using same1 by simp
    next
      case Pipette
      have "st' = s1" using up c f Pipette by (simp add: handlePointerUp_def Let_def s1_def)
      then show ?thesis using same1 by simp
    qed
  qed
qed

end
